theory Spec2Isabelle
  imports Main "HOL-Library.Word" "HOL-Library.AList"
begin

section \<open>Basic types\<close>

text \<open>Block numbers are Go \<open>uint64\<close> values: arithmetic wraps modulo \<open>2 ^ 64\<close>.\<close>

type_synonym u64 = "64 word"

text \<open>
  Errors of \<open>github.com/pkg/errors\<close>: \<open>errors.New msg\<close> and
  \<open>errors.Wrap err msg\<close> (also \<open>Wrapf\<close>, with the message already formatted).
\<close>

datatype error = New string | Wrap error string

text \<open>The sentinel \<open>redis.Nil\<close> that go-redis returns for a missing key.\<close>

definition redisNil :: error where
  "redisNil = New ''redis: nil''"

section \<open>strconv\<close>

text \<open>\<open>strconv.FormatUint(n, 10)\<close>: decimal digits, most significant first, \<open>0\<close> as \<open>''0''\<close>.\<close>

definition digitChar :: "nat \<Rightarrow> char" where
  "digitChar d = ''0123456789'' ! d"

fun FormatUint :: "nat \<Rightarrow> string" where
  "FormatUint n = (if n < 10 then [digitChar n] else FormatUint (n div 10) @ [digitChar (n mod 10)])"

declare FormatUint.simps [simp del]

text \<open>
  \<open>strconv.ParseUint(s, 10, 64)\<close>: the empty string and any character outside
  \<open>0..9\<close> is a syntax error, a value of \<open>2 ^ 64\<close> or more a range error. The accumulator
  is a \<open>nat\<close> and the overflow test of the Go loop is written out.
\<close>

definition digitVal :: "char \<Rightarrow> nat option" where
  "digitVal c = (let k = (of_char c :: nat) in if 48 \<le> k \<and> k \<le> 57 then Some (k - 48) else None)"

definition errSyntax :: error where
  "errSyntax = New ''invalid syntax''"

definition errRange :: error where
  "errRange = New ''value out of range''"

fun parseDigits :: "nat \<Rightarrow> string \<Rightarrow> error + nat" where
  "parseDigits n [] = Inr n"
| "parseDigits n (c # cs) =
     (case digitVal c of
        None \<Rightarrow> Inl errSyntax
      | Some d \<Rightarrow> if 2 ^ 64 \<le> n * 10 + d then Inl errRange else parseDigits (n * 10 + d) cs)"

definition ParseUint :: "string \<Rightarrow> error + u64" where
  "ParseUint s =
     (if s = [] then Inl errSyntax
      else case parseDigits 0 s of Inl e \<Rightarrow> Inl e | Inr n \<Rightarrow> Inr (word_of_nat n))"

section \<open>Package rdb: the Redis wrapper\<close>

text \<open>
  Modelled from the spec: package \<open>entity\<close> is not among the sources. A Record is
  \<open>{hash, payload}\<close>; \<open>main.go\<close> builds it as \<open>entity.EthData{Hash: ..., Data: ...}\<close>, and
  \<open>EthDatasByBlockNumber\<close> is the mapping from block number to the ordered records of
  that block (\<open>map[uint64][]EthData\<close>), kept here as an association list with one entry
  per key.
\<close>

record EthData =
  Hash :: string
  Data :: string

type_synonym EthDatasByBlockNumber = "(u64 \<times> EthData list) list"

text \<open>
  The Redis database: plain string keys (the checkpoint) and hashes (key, field). The
  value of a hash field is the JSON array of the records; the encoding is injective and
  is left out, the field holds the record list itself.
\<close>

record redis =
  strings :: "string \<rightharpoonup> string"
  hashes :: "string \<Rightarrow> string \<rightharpoonup> EthData list"

text \<open>
  What the Redis server answers to one command: \<open>None\<close> is success, \<open>Some e\<close> the
  error of the command, which then changes nothing.
\<close>

record redisFaults =
  GetErr :: "string \<Rightarrow> error option"
  SetErr :: "string \<Rightarrow> error option"
  HSetErr :: "string \<Rightarrow> string \<Rightarrow> error option"

definition keyPrefix :: string where
  "keyPrefix = ''ethtxcrawler''"

record redisWrapper =
  serviceLabel :: string
  mode :: string

definition New_rdb :: "string \<Rightarrow> string \<Rightarrow> redisWrapper" where
  "New_rdb label md =
     \<lparr>serviceLabel = (if label = [] then keyPrefix else keyPrefix @ ''@'' @ label), mode = md\<rparr>"

definition txDataKey :: "redisWrapper \<Rightarrow> string" where
  "txDataKey rdw = keyPrefix @ '':txs''"

definition logDataKey :: "redisWrapper \<Rightarrow> string \<Rightarrow> string" where
  "logDataKey rdw addr = serviceLabel rdw @ '':logs:'' @ addr"

definition lastRecordedBlockKey :: "redisWrapper \<Rightarrow> string" where
  "lastRecordedBlockKey rdw = serviceLabel rdw @ '':'' @ mode rdw @ '':lastRecordedBlock''"

text \<open>\<open>db.HSet(ctx, key, field, value)\<close> and \<open>db.Set(ctx, key, value, 0)\<close>.\<close>

definition HSet :: "redisFaults \<Rightarrow> string \<Rightarrow> string \<Rightarrow> EthData list \<Rightarrow> redis \<Rightarrow> error option \<times> redis" where
  "HSet rf key field v db =
     (case HSetErr rf key field of
        Some e \<Rightarrow> (Some e, db)
      | None \<Rightarrow> (None, db\<lparr>hashes := (hashes db)(key := (hashes db key)(field \<mapsto> v))\<rparr>))"

definition Set_rdb :: "redisFaults \<Rightarrow> string \<Rightarrow> string \<Rightarrow> redis \<Rightarrow> error option \<times> redis" where
  "Set_rdb rf key v db =
     (case SetErr rf key of
        Some e \<Rightarrow> (Some e, db)
      | None \<Rightarrow> (None, db\<lparr>strings := (strings db)(key \<mapsto> v)\<rparr>))"

definition Get_rdb :: "redisFaults \<Rightarrow> string \<Rightarrow> redis \<Rightarrow> error + string" where
  "Get_rdb rf key db =
     (case GetErr rf key of
        Some e \<Rightarrow> Inl e
      | None \<Rightarrow> (case strings db key of None \<Rightarrow> Inl redisNil | Some v \<Rightarrow> Inr v))"

text \<open>
  \<open>concurrent.WaitAndCollectErrors\<close> belongs to the library \<open>soyart/gsl\<close>: it waits for
  the writers and returns \<open>nil\<close> when none of them sent an error. The errors sent are
  kept in the order of the writers; the first stands for the collection.
\<close>

definition WaitAndCollectErrors :: "error list \<Rightarrow> error option" where
  "WaitAndCollectErrors errs = (case errs of [] \<Rightarrow> None | e # _ \<Rightarrow> Some e)"

text \<open>
  \<open>SaveTxs\<close>: one writer per block number, each an \<open>HSet\<close> of field
  \<open>FormatUint n\<close> under \<open>txDataKey\<close>. A writer whose \<open>HSet\<close> fails sends the wrapped
  error; the other writers still write. The writers touch different fields, so the order in
  which Go ranges over the map does not show in the store. \<open>json.Marshal\<close> of a list of
  records of two strings does not fail; its error branch is left out.
\<close>

fun saveFields :: "redisFaults \<Rightarrow> string \<Rightarrow> EthDatasByBlockNumber \<Rightarrow> redis \<Rightarrow> error list \<times> redis" where
  "saveFields rf key [] db = ([], db)"
| "saveFields rf key ((n, datas) # rest) db =
     (case HSet rf key (FormatUint (unat n)) datas db of
        (None, db') \<Rightarrow> saveFields rf key rest db'
      | (Some e, db') \<Rightarrow>
          (case saveFields rf key rest db' of
             (errs, db'') \<Rightarrow> (Wrap e (''failed to save key '' @ key @ '' to redis'') # errs, db'')))"

definition SaveTxs :: "redisWrapper \<Rightarrow> redisFaults \<Rightarrow> EthDatasByBlockNumber \<Rightarrow> redis \<Rightarrow> error option \<times> redis" where
  "SaveTxs rdw rf dataByBlockNumber db =
     (case saveFields rf (txDataKey rdw) dataByBlockNumber db of
        (errs, db') \<Rightarrow> (WaitAndCollectErrors errs, db'))"

text \<open>
  \<open>SaveLogTxs\<close>: one writer per address, writing every block of that address under
  \<open>logDataKey addr\<close>; go-redis renders the \<open>uint64\<close> field in decimal.
\<close>

fun saveAddrs :: "redisWrapper \<Rightarrow> redisFaults \<Rightarrow> (string \<times> EthDatasByBlockNumber) list \<Rightarrow> redis \<Rightarrow> error list \<times> redis" where
  "saveAddrs rdw rf [] db = ([], db)"
| "saveAddrs rdw rf ((addr, datas) # rest) db =
     (case saveFields rf (logDataKey rdw addr) datas db of
        (errs, db') \<Rightarrow>
          (case saveAddrs rdw rf rest db' of (errs', db'') \<Rightarrow> (errs @ errs', db'')))"

definition SaveLogTxs :: "redisWrapper \<Rightarrow> redisFaults \<Rightarrow> (string \<times> EthDatasByBlockNumber) list \<Rightarrow> redis \<Rightarrow> error option \<times> redis" where
  "SaveLogTxs rdw rf dataByAddr db =
     (case saveAddrs rdw rf dataByAddr db of
        (errs, db') \<Rightarrow> (WaitAndCollectErrors errs, db'))"

definition SetLastRecordedBlock :: "redisWrapper \<Rightarrow> redisFaults \<Rightarrow> u64 \<Rightarrow> redis \<Rightarrow> error option \<times> redis" where
  "SetLastRecordedBlock rdw rf block db =
     (case Set_rdb rf (lastRecordedBlockKey rdw) (FormatUint (unat block)) db of
        (Some e, db') \<Rightarrow> (Some (Wrap e (''failed to set lastRecordedBlock '' @ FormatUint (unat block))), db')
      | (None, db') \<Rightarrow> (None, db'))"

definition GetLastRecordedBlock :: "redisWrapper \<Rightarrow> redisFaults \<Rightarrow> redis \<Rightarrow> error + u64" where
  "GetLastRecordedBlock rdw rf db =
     (case Get_rdb rf (lastRecordedBlockKey rdw) db of
        Inl e \<Rightarrow> if e = redisNil then Inr 0 else Inl (Wrap e ''failed to get lastRecordedBlock'')
      | Inr blockString \<Rightarrow>
          (case ParseUint blockString of
             Inl e \<Rightarrow> Inl (Wrap e ''failed to parse redis string to block number'')
           | Inr block \<Rightarrow> Inr block))"

section \<open>Strings and bytes\<close>

text \<open>
  \<open>strings.ToLower\<close> on the ASCII strings that \<open>Hex()\<close> and \<open>hex.EncodeToString\<close>
  produce: \<open>A..Z\<close> go to \<open>a..z\<close>, every other byte stays.
\<close>

definition toLowerChar :: "char \<Rightarrow> char" where
  "toLowerChar c =
     (let k = (of_char c :: nat) in if 65 \<le> k \<and> k \<le> 90 then ''abcdefghijklmnopqrstuvwxyz'' ! (k - 65) else c)"

definition ToLower :: "string \<Rightarrow> string" where
  "ToLower s = map toLowerChar s"

text \<open>\<open>hex.EncodeToString\<close>: two digits of \<open>0123456789abcdef\<close> per byte, high nibble first.\<close>

definition hexChar :: "nat \<Rightarrow> char" where
  "hexChar d = ''0123456789abcdef'' ! d"

definition EncodeToString :: "8 word list \<Rightarrow> string" where
  "EncodeToString bs = concat (map (\<lambda>b. [hexChar (unat b div 16), hexChar (unat b mod 16)]) bs)"

section \<open>The ledger source\<close>

text \<open>
  What \<open>ethclient\<close> returns. A hash and an address are kept as the string their
  \<open>Hex()\<close> method renders, the only way the crawler reads them.
\<close>

type_synonym Address = string

record Transaction =
  TxHash :: string
  TxData :: "8 word list"

record Block =
  NumberU64 :: u64
  Transactions :: "Transaction list"

record Log =
  LogAddress :: Address
  LogTxHash :: string
  LogBlockNumber :: u64
  LogData :: "8 word list"

text \<open>
  The collaborators as one loop iteration meets them: the answers of the node to
  \<open>BlockNumber\<close>, \<open>BlockByNumber\<close> and \<open>FilterLogs\<close>, and the faults of the Redis server.
  A request is identified by the \<open>uint64\<close> block numbers the loop computed (the code hands
  them over as \<open>big.NewInt(int64(n))\<close>). \<open>spawnedBeyond\<close> matters only when the loop that
  spawns the fetch tasks does not end: it is the number of tasks that loop starts beyond the
  \<open>numberOfBlocks + 1\<close> it starts in any case, before the process dies.
\<close>

record env =
  clientBlockNumber :: "error + u64"
  clientBlockByNumber :: "u64 \<Rightarrow> error + Block"
  clientFilterLogs :: "u64 \<Rightarrow> u64 \<Rightarrow> Address list \<Rightarrow> error + Log list"
  faults :: redisFaults
  spawnedBeyond :: nat

text \<open>
  The calls a run makes, in order. \<open>NewLoop\<close> is the log line \<open>new loop\<close> with the
  expected number of blocks, \<open>lastRecordedBlock\<close>, \<open>thisFromBlock\<close> and \<open>thisToBlock\<close>.
  \<open>CallBlockByNumber n\<close> is the fetch task started for block \<open>n\<close>, which calls
  \<open>client.BlockByNumber\<close>; the tasks are listed in the order the loop starts them.
\<close>

datatype event =
    CallBlockNumber
  | NewLoop int u64 u64 u64
  | CallBlockByNumber u64
  | CallFilterLogs u64 u64 "Address list"
  | CallSaveTxs EthDatasByBlockNumber
  | CallSaveLogTxs "(string \<times> EthDatasByBlockNumber) list"
  | CallSetLastRecordedBlock u64

text \<open>
  The ways an iteration does not return:
  \<^item> \<open>MakeChanPanic\<close>: \<open>make(chan *types.Block, n)\<close> with \<open>n < 0\<close> panics;
  \<^item> \<open>SpawnLoopOverflow\<close>: \<open>blockNumber <= thisToBlock\<close> holds for every \<open>uint64\<close> when
    \<open>thisToBlock\<close> is the largest one, so the spawning loop never ends: after the task of
    the largest block number \<open>blockNumber++\<close> wraps to \<open>0\<close> and tasks for the blocks
    \<open>0, 1, 2, ...\<close> follow. \<open>wg.Add\<close> counted \<open>numberOfBlocks\<close> tasks, so once one more
    than that have reached \<open>wg.Done()\<close> the counter is negative and the process panics; a
    task whose fetch failed never gets there and the loop goes on;
  \<^item> \<open>ErrChanDeadlock\<close>: a fetch task whose fetch failed sends on the unbuffered
    \<open>errChan\<close> before its deferred \<open>wg.Done()\<close>; the only receiver is behind \<open>wg.Wait()\<close>,
    so the task and \<open>wg.Wait()\<close> block forever;
  \<^item> \<open>WaitGroupMismatch\<close>: \<open>wg.Add(numberOfBlocks)\<close> with another number of tasks
    spawned, so \<open>wg.Wait()\<close> never returns.
\<close>

datatype abnormal = MakeChanPanic | SpawnLoopOverflow | ErrChanDeadlock | WaitGroupMismatch

datatype outcome = Next u64 | Return error | Stuck abnormal

datatype result = Returned "error option" | NoReturn abnormal

section \<open>The crawl loop (cmd/main.go)\<close>

subsection \<open>The resume position and the window\<close>

text \<open>
  The block \<open>// First run\<close> of both loops: a checkpoint read as \<open>0\<close> sets
  \<open>firstRun\<close> and moves the resume position to \<open>fromBlock\<close>.
\<close>

definition resume :: "u64 \<Rightarrow> u64 \<Rightarrow> bool \<times> u64" where
  "resume fromBlock lastRecordedBlock =
     (if lastRecordedBlock = 0 then (True, fromBlock) else (False, lastRecordedBlock))"

definition thisFromBlock :: "bool \<Rightarrow> u64 \<Rightarrow> u64" where
  "thisFromBlock firstRun lastRecordedBlock =
     (if firstRun then lastRecordedBlock else lastRecordedBlock + 1)"

definition chopToCurrent :: "u64 \<Rightarrow> u64 \<Rightarrow> u64" where
  "chopToCurrent currentBlock t = (if t > currentBlock then currentBlock else t)"

definition chopToBlock :: "bool \<Rightarrow> u64 \<Rightarrow> u64 \<Rightarrow> u64" where
  "chopToBlock rolling toBlock t = (if \<not> rolling \<and> t > toBlock then toBlock else t)"

definition thisToBlock :: "u64 \<Rightarrow> u64 \<Rightarrow> u64 \<Rightarrow> bool \<Rightarrow> u64 \<Rightarrow> u64" where
  "thisToBlock from batchSize currentBlock rolling toBlock =
     chopToBlock rolling toBlock (chopToCurrent currentBlock (from + batchSize))"

text \<open>\<open>int(thisToBlock - thisFromBlock + 1)\<close> on a 64-bit platform: the difference wraps, the conversion reads it as signed.\<close>

definition numberOfBlocks :: "u64 \<Rightarrow> u64 \<Rightarrow> int" where
  "numberOfBlocks from to = sint (to - from + 1)"

text \<open>The block numbers of \<open>for blockNumber := thisFromBlock; blockNumber <= thisToBlock; blockNumber++\<close>, when that loop ends.\<close>

definition blockNumbers :: "u64 \<Rightarrow> u64 \<Rightarrow> u64 list" where
  "blockNumbers from to = (if to < from then [] else map word_of_nat [unat from ..< Suc (unat to)])"

text \<open>
  The first \<open>k\<close> block numbers of that loop when it does not end (\<open>thisToBlock\<close> the largest
  \<open>uint64\<close>): \<open>from\<close>, \<open>from + 1\<close>, ... with the wrap to \<open>0\<close> after the largest.
\<close>

definition runawayNumbers :: "u64 \<Rightarrow> nat \<Rightarrow> u64 list" where
  "runawayNumbers from k = map (\<lambda>i. from + word_of_nat i) [0 ..< k]"

subsection \<open>Transaction mode\<close>

text \<open>
  The join: every task has to reach \<open>wg.Done()\<close>, which a task with a failed fetch never
  does. When all fetches succeed, \<open>blockChan\<close> (buffered for all of them) holds one block
  per task; they are taken here in the order of the tasks. The order in which they really
  arrive is not fixed, and does not matter for the map built from them when the blocks carry
  different numbers.
\<close>

fun joinFetches :: "(error + Block) list \<Rightarrow> Block list option" where
  "joinFetches [] = Some []"
| "joinFetches (Inl e # rs) = None"
| "joinFetches (Inr b # rs) = (case joinFetches rs of None \<Rightarrow> None | Some bs \<Rightarrow> Some (b # bs))"

definition txDatas :: "Block \<Rightarrow> EthData list" where
  "txDatas block =
     map (\<lambda>tx. \<lparr>Hash = ToLower (TxHash tx), Data = EncodeToString (TxData tx)\<rparr>) (Transactions block)"

definition collectBlocks :: "Block list \<Rightarrow> EthDatasByBlockNumber" where
  "collectBlocks blocks = fold (\<lambda>block m. AList.update (NumberU64 block) (txDatas block) m) blocks []"

text \<open>
  One pass through the body of the loop of \<open>getAndSaveTxs\<close>, from \<open>lastRecordedBlock\<close> and
  the store \<open>db\<close>: the calls made, the store afterwards, and how the pass ends (\<open>Next\<close> with
  the new \<open>lastRecordedBlock\<close>, \<open>Return\<close> of an error, or no return). Memory is not
  modelled: a channel of any capacity \<open>\<ge> 0\<close> can be made.
\<close>

definition txsIteration ::
  "redisWrapper \<Rightarrow> env \<Rightarrow> u64 \<Rightarrow> u64 \<Rightarrow> bool \<Rightarrow> bool \<Rightarrow> u64 \<Rightarrow> redis \<Rightarrow> event list \<times> redis \<times> outcome" where
  "txsIteration rdw en toBlock batchSize rolling firstRun lastRecordedBlock db =
     (let from = thisFromBlock firstRun lastRecordedBlock in
      case clientBlockNumber en of
        Inl e \<Rightarrow> ([CallBlockNumber], db, Return (Wrap e ''failed to get current block number''))
      | Inr currentBlock \<Rightarrow>
          (let to = thisToBlock from batchSize currentBlock rolling toBlock;
               n = numberOfBlocks from to;
               ev0 = [CallBlockNumber, NewLoop n lastRecordedBlock from to]
           in if n < 0 then (ev0, db, Stuck MakeChanPanic)
              else if from \<le> to \<and> to = - 1 then
                (ev0 @ map CallBlockByNumber (runawayNumbers from (nat n + 1 + spawnedBeyond en)), db,
                 Stuck SpawnLoopOverflow)
              else
                (let ns = blockNumbers from to;
                     ev1 = ev0 @ map CallBlockByNumber ns
                 in case joinFetches (map (clientBlockByNumber en) ns) of
                      None \<Rightarrow> (ev1, db, Stuck ErrChanDeadlock)
                    | Some blocks \<Rightarrow>
                        if int (length ns) \<noteq> n then (ev1, db, Stuck WaitGroupMismatch)
                        else
                          (let dataByBlock = collectBlocks blocks;
                               ev2 = ev1 @ [CallSaveTxs dataByBlock]
                           in case SaveTxs rdw (faults en) dataByBlock db of
                                (Some e, db') \<Rightarrow> (ev2, db', Return (Wrap e ''failed to save tx data to redis''))
                              | (None, db') \<Rightarrow>
                                  (case SetLastRecordedBlock rdw (faults en) to db' of
                                     (Some e, db'') \<Rightarrow>
                                       (ev2 @ [CallSetLastRecordedBlock to], db'',
                                        Return (Wrap e ''failed to save lastRecordedBlock''))
                                   | (None, db'') \<Rightarrow>
                                       (ev2 @ [CallSetLastRecordedBlock to], db'', Next to))))))"

text \<open>
  The loop \<open>for rolling || lastRecordedBlock < toBlock\<close>. It may run forever, so it takes
  fuel: \<open>None\<close> is a run that is still looping when the fuel is gone, and the calls listed
  are those made so far. \<open>firstRun\<close> is never assigned inside the loop. Iteration \<open>i\<close>
  meets \<open>world i\<close>; the checkpoint is read, before the loop, under the faults of \<open>world 0\<close>.
\<close>

fun txsLoop ::
  "nat \<Rightarrow> redisWrapper \<Rightarrow> (nat \<Rightarrow> env) \<Rightarrow> u64 \<Rightarrow> u64 \<Rightarrow> bool \<Rightarrow> bool \<Rightarrow> nat \<Rightarrow> u64 \<Rightarrow> redis
     \<Rightarrow> event list \<times> redis \<times> result option" where
  "txsLoop 0 rdw world toBlock batchSize rolling firstRun i lastRecordedBlock db =
     (if rolling \<or> lastRecordedBlock < toBlock then ([], db, None)
      else ([], db, Some (Returned None)))"
| "txsLoop (Suc fuel) rdw world toBlock batchSize rolling firstRun i lastRecordedBlock db =
     (if rolling \<or> lastRecordedBlock < toBlock then
        (case txsIteration rdw (world i) toBlock batchSize rolling firstRun lastRecordedBlock db of
           (ev, db', Next to) \<Rightarrow>
             (case txsLoop fuel rdw world toBlock batchSize rolling firstRun (Suc i) to db' of
                (ev', db'', r) \<Rightarrow> (ev @ ev', db'', r))
         | (ev, db', Return e) \<Rightarrow> (ev, db', Some (Returned (Some e)))
         | (ev, db', Stuck a) \<Rightarrow> (ev, db', Some (NoReturn a)))
      else ([], db, Some (Returned None)))"

definition getAndSaveTxs ::
  "nat \<Rightarrow> redisWrapper \<Rightarrow> (nat \<Rightarrow> env) \<Rightarrow> redis \<Rightarrow> u64 \<Rightarrow> u64 \<Rightarrow> u64 \<Rightarrow> bool
     \<Rightarrow> event list \<times> redis \<times> result option" where
  "getAndSaveTxs fuel rdw world db fromBlock toBlock batchSize rolling =
     (case GetLastRecordedBlock rdw (faults (world 0)) db of
        Inl e \<Rightarrow> ([], db, Some (Returned (Some (Wrap e ''redis error''))))
      | Inr lastRecordedBlock \<Rightarrow>
          (case resume fromBlock lastRecordedBlock of
             (firstRun, lastRecordedBlock) \<Rightarrow>
               txsLoop fuel rdw world toBlock batchSize rolling firstRun 0 lastRecordedBlock db))"

subsection \<open>Log mode\<close>

definition logData :: "Log \<Rightarrow> EthData" where
  "logData log = \<lparr>Hash = ToLower (LogTxHash log), Data = ToLower (EncodeToString (LogData log))\<rparr>"

definition addLog :: "Log \<Rightarrow> (string \<times> EthDatasByBlockNumber) list \<Rightarrow> (string \<times> EthDatasByBlockNumber) list" where
  "addLog log dataByAddr =
     (let addr = ToLower (LogAddress log);
          contractData = (case map_of dataByAddr addr of None \<Rightarrow> [] | Some cd \<Rightarrow> cd);
          blockDatas = (case map_of contractData (LogBlockNumber log) of None \<Rightarrow> [] | Some bd \<Rightarrow> bd)
      in AList.update addr (AList.update (LogBlockNumber log) (blockDatas @ [logData log]) contractData) dataByAddr)"

definition groupLogs :: "Log list \<Rightarrow> (string \<times> EthDatasByBlockNumber) list" where
  "groupLogs logs = fold addLog logs []"

definition logsIteration ::
  "redisWrapper \<Rightarrow> env \<Rightarrow> Address list \<Rightarrow> u64 \<Rightarrow> u64 \<Rightarrow> bool \<Rightarrow> bool \<Rightarrow> u64 \<Rightarrow> redis
     \<Rightarrow> event list \<times> redis \<times> outcome" where
  "logsIteration rdw en addresses toBlock batchSize rolling firstRun lastRecordedBlock db =
     (let from = thisFromBlock firstRun lastRecordedBlock in
      case clientBlockNumber en of
        Inl e \<Rightarrow> ([CallBlockNumber], db, Return (Wrap e ''failed to get current block number''))
      | Inr currentBlock \<Rightarrow>
          (let to = thisToBlock from batchSize currentBlock rolling toBlock;
               n = numberOfBlocks from to;
               ev0 = [CallBlockNumber, NewLoop n lastRecordedBlock from to, CallFilterLogs from to addresses]
           in case clientFilterLogs en from to addresses of
                Inl e \<Rightarrow> (ev0, db, Return (Wrap e ''failed to filter logs''))
              | Inr logs \<Rightarrow>
                  (let dataByAddr = groupLogs logs;
                       ev1 = ev0 @ [CallSaveLogTxs dataByAddr];
                       range = FormatUint (unat lastRecordedBlock) @ '' - '' @ FormatUint (unat to)
                   in case SaveLogTxs rdw (faults en) dataByAddr db of
                        (Some e, db') \<Rightarrow> (ev1, db', Return (Wrap e (''failed to save data in range '' @ range)))
                      | (None, db') \<Rightarrow>
                          (case SetLastRecordedBlock rdw (faults en) to db' of
                             (Some e, db'') \<Rightarrow>
                               (ev1 @ [CallSetLastRecordedBlock to], db'',
                                Return (Wrap e (''failed to save lastRecordedBlock in range '' @ range)))
                           | (None, db'') \<Rightarrow> (ev1 @ [CallSetLastRecordedBlock to], db'', Next to)))))"

fun logsLoop ::
  "nat \<Rightarrow> redisWrapper \<Rightarrow> (nat \<Rightarrow> env) \<Rightarrow> Address list \<Rightarrow> u64 \<Rightarrow> u64 \<Rightarrow> bool \<Rightarrow> bool \<Rightarrow> nat \<Rightarrow> u64 \<Rightarrow> redis
     \<Rightarrow> event list \<times> redis \<times> result option" where
  "logsLoop 0 rdw world addresses toBlock batchSize rolling firstRun i lastRecordedBlock db =
     (if rolling \<or> lastRecordedBlock < toBlock then ([], db, None)
      else ([], db, Some (Returned None)))"
| "logsLoop (Suc fuel) rdw world addresses toBlock batchSize rolling firstRun i lastRecordedBlock db =
     (if rolling \<or> lastRecordedBlock < toBlock then
        (case logsIteration rdw (world i) addresses toBlock batchSize rolling firstRun lastRecordedBlock db of
           (ev, db', Next to) \<Rightarrow>
             (case logsLoop fuel rdw world addresses toBlock batchSize rolling firstRun (Suc i) to db' of
                (ev', db'', r) \<Rightarrow> (ev @ ev', db'', r))
         | (ev, db', Return e) \<Rightarrow> (ev, db', Some (Returned (Some e)))
         | (ev, db', Stuck a) \<Rightarrow> (ev, db', Some (NoReturn a)))
      else ([], db, Some (Returned None)))"

definition getAndSaveLogsTxs ::
  "nat \<Rightarrow> redisWrapper \<Rightarrow> (nat \<Rightarrow> env) \<Rightarrow> redis \<Rightarrow> Address list \<Rightarrow> u64 \<Rightarrow> u64 \<Rightarrow> u64 \<Rightarrow> bool
     \<Rightarrow> event list \<times> redis \<times> result option" where
  "getAndSaveLogsTxs fuel rdw world db addresses fromBlock toBlock batchSize rolling =
     (case GetLastRecordedBlock rdw (faults (world 0)) db of
        Inl e \<Rightarrow> ([], db, Some (Returned (Some (Wrap e ''redis error''))))
      | Inr lastRecordedBlock \<Rightarrow>
          (case resume fromBlock lastRecordedBlock of
             (firstRun, lastRecordedBlock) \<Rightarrow>
               logsLoop fuel rdw world addresses toBlock batchSize rolling firstRun 0 lastRecordedBlock db))"

section \<open>Observations on a run\<close>

text \<open>The windows a run computed, the blocks it asked for, its log queries and its checkpoint writes.\<close>

fun windowsOf :: "event list \<Rightarrow> (u64 \<times> u64) list" where
  "windowsOf [] = []"
| "windowsOf (NewLoop n l f t # ev) = (f, t) # windowsOf ev"
| "windowsOf (e # ev) = windowsOf ev"

fun fetchedBlocks :: "event list \<Rightarrow> u64 list" where
  "fetchedBlocks [] = []"
| "fetchedBlocks (CallBlockByNumber n # ev) = n # fetchedBlocks ev"
| "fetchedBlocks (e # ev) = fetchedBlocks ev"

fun logQueries :: "event list \<Rightarrow> (u64 \<times> u64) list" where
  "logQueries [] = []"
| "logQueries (CallFilterLogs f t a # ev) = (f, t) # logQueries ev"
| "logQueries (e # ev) = logQueries ev"

fun checkpointWrites :: "event list \<Rightarrow> u64 list" where
  "checkpointWrites [] = []"
| "checkpointWrites (CallSetLastRecordedBlock t # ev) = t # checkpointWrites ev"
| "checkpointWrites (e # ev) = checkpointWrites ev"

text \<open>Windows that follow each other: every lower bound is the upper bound before it, the first one \<open>l\<close>.\<close>

fun chained :: "u64 \<Rightarrow> (u64 \<times> u64) list \<Rightarrow> bool" where
  "chained l [] = True"
| "chained l ((f, t) # ws) = (f = l \<and> chained t ws)"

text \<open>The record list filed under an address and a block number.\<close>

definition bucket :: "(string \<times> EthDatasByBlockNumber) list \<Rightarrow> string \<Rightarrow> u64 \<Rightarrow> EthData list" where
  "bucket dataByAddr addr n =
     (case map_of dataByAddr addr of
        None \<Rightarrow> []
      | Some cd \<Rightarrow> (case map_of cd n of None \<Rightarrow> [] | Some ds \<Rightarrow> ds))"

section \<open>Example collaborators\<close>

definition noFaults :: redisFaults where
  "noFaults = \<lparr>GetErr = (\<lambda>k. None), SetErr = (\<lambda>k. None), HSetErr = (\<lambda>k f. None)\<rparr>"

definition emptyRedis :: redis where
  "emptyRedis = \<lparr>strings = Map.empty, hashes = (\<lambda>k. Map.empty)\<rparr>"

text \<open>A store that holds only the checkpoint \<open>v\<close> of the wrapper.\<close>

definition checkpointOnly :: "redisWrapper \<Rightarrow> string \<Rightarrow> redis" where
  "checkpointOnly rdw v = \<lparr>strings = [lastRecordedBlockKey rdw \<mapsto> v], hashes = (\<lambda>k. Map.empty)\<rparr>"

text \<open>A node at height \<open>h\<close> whose blocks hold no transaction and emit no log.\<close>

definition quietNode :: "u64 \<Rightarrow> env" where
  "quietNode h =
     \<lparr>clientBlockNumber = Inr h,
      clientBlockByNumber = (\<lambda>n. Inr \<lparr>NumberU64 = n, Transactions = []\<rparr>),
      clientFilterLogs = (\<lambda>f t a. Inr []),
      faults = noFaults,
      spawnedBeyond = 0\<rparr>"

text \<open>The same node, except that fetching block \<open>bad\<close> fails.\<close>

definition flakyNode :: "u64 \<Rightarrow> u64 \<Rightarrow> env" where
  "flakyNode h bad =
     (quietNode h)\<lparr>clientBlockByNumber :=
        (\<lambda>n. if n = bad then Inl (New ''connection reset'') else Inr \<lparr>NumberU64 = n, Transactions = []\<rparr>)\<rparr>"

definition txsWrapper :: redisWrapper where
  "txsWrapper = New_rdb ''a'' ''txs''"

definition logsWrapper :: redisWrapper where
  "logsWrapper = New_rdb ''a'' ''log-txs''"

text \<open>A Redis server that refuses every write.\<close>

definition readOnly :: redisFaults where
  "readOnly = \<lparr>GetErr = (\<lambda>k. None), SetErr = (\<lambda>k. Some (New ''READONLY'')), HSetErr = (\<lambda>k f. Some (New ''READONLY''))\<rparr>"

text \<open>Three log events of block \<open>7\<close>, two of them of the same contract.\<close>

definition sampleLogs :: "Log list" where
  "sampleLogs =
     [\<lparr>LogAddress = ''0xAA'', LogTxHash = ''0x1F'', LogBlockNumber = 7, LogData = [171]\<rparr>,
      \<lparr>LogAddress = ''0xBb'', LogTxHash = ''0x2e'', LogBlockNumber = 7, LogData = [1, 2]\<rparr>,
      \<lparr>LogAddress = ''0xaa'', LogTxHash = ''0x3D'', LogBlockNumber = 7, LogData = []\<rparr>]"

text \<open>A node at height \<open>h\<close> that answers every log query with \<open>sampleLogs\<close>.\<close>

definition chattyNode :: "u64 \<Rightarrow> env" where
  "chattyNode h = (quietNode h)\<lparr>clientFilterLogs := (\<lambda>f t a. Inr sampleLogs)\<rparr>"

subsection \<open>Decimal strings\<close>

lemma digitVal_digitChar: "d < 10 \<Longrightarrow> digitVal (digitChar d) = Some d"
proof -
  assume "d < 10"
  then have "d \<in> {0,1,2,3,4,5,6,7,8,9}" by auto
  then show ?thesis
    by (auto simp: digitVal_def digitChar_def)
qed

lemma FormatUint_not_Nil: "FormatUint n \<noteq> []"
  by (subst FormatUint.simps) simp

lemma parseDigits_snoc:
  "parseDigits a (s @ [c]) =
     (case parseDigits a s of
        Inl e \<Rightarrow> Inl e
      | Inr m \<Rightarrow> (case digitVal c of
                    None \<Rightarrow> Inl errSyntax
                  | Some d \<Rightarrow> if 2 ^ 64 \<le> m * 10 + d then Inl errRange else Inr (m * 10 + d)))"
  by (induction s arbitrary: a) (auto split: option.splits)

lemma parseDigits_FormatUint: "n < 2 ^ 64 \<Longrightarrow> parseDigits 0 (FormatUint n) = Inr n"
proof (induction n rule: FormatUint.induct)
  case (1 n)
  show ?case
  proof (cases "n < 10")
    case True
    then show ?thesis
      using "1.prems" by (subst FormatUint.simps) (simp add: digitVal_digitChar)
  next
    case False
    have small: "n div 10 < 2 ^ 64" using "1.prems" by simp
    have ih: "parseDigits 0 (FormatUint (n div 10)) = Inr (n div 10)"
      using "1.IH" [OF False small] .
    have "FormatUint n = FormatUint (n div 10) @ [digitChar (n mod 10)]"
      using False by (subst FormatUint.simps) simp
    then show ?thesis
      using "1.prems" by (simp add: parseDigits_snoc ih digitVal_digitChar)
  qed
qed

lemma ParseUint_FormatUint: "ParseUint (FormatUint (unat (c :: u64))) = Inr c"
proof -
  have "unat c < 2 ^ 64" using unsigned_less [of c] by simp
  then show ?thesis
    by (simp add: ParseUint_def FormatUint_not_Nil parseDigits_FormatUint)
qed

lemma FormatUint_inj: "FormatUint (unat (a :: u64)) = FormatUint (unat (b :: u64)) \<Longrightarrow> a = b"
  by (metis ParseUint_FormatUint sum.inject(2))

subsection \<open>Window\<close>

lemma thisToBlock_le_current: "thisToBlock from batchSize currentBlock rolling toBlock \<le> currentBlock"
  by (auto simp: thisToBlock_def chopToBlock_def chopToCurrent_def)

lemma thisToBlock_le_toBlock: "\<not> rolling \<Longrightarrow> thisToBlock from batchSize currentBlock rolling toBlock \<le> toBlock"
  by (auto simp: thisToBlock_def chopToBlock_def chopToCurrent_def)

lemma set_blockNumbers: "set (blockNumbers from to) = {n. from \<le> n \<and> n \<le> to}"
proof (cases "to < from")
  case True
  then show ?thesis by (auto simp: blockNumbers_def)
next
  case False
  have "x \<in> set (blockNumbers from to) \<longleftrightarrow> from \<le> x \<and> x \<le> to" for x
  proof -
    have "x \<in> set (blockNumbers from to) \<longleftrightarrow> (\<exists>k. unat from \<le> k \<and> k \<le> unat to \<and> x = word_of_nat k)"
      using False by (auto simp: blockNumbers_def less_Suc_eq_le)
    also have "\<dots> \<longleftrightarrow> from \<le> x \<and> x \<le> to"
    proof
      assume "\<exists>k. unat from \<le> k \<and> k \<le> unat to \<and> x = word_of_nat k"
      then obtain k where k: "unat from \<le> k" "k \<le> unat to" "x = word_of_nat k" by blast
      then show "from \<le> x \<and> x \<le> to"
        by (simp add: le_unat_uoi word_le_nat_alt)
    next
      assume "from \<le> x \<and> x \<le> to"
      then have "unat from \<le> unat x \<and> unat x \<le> unat to \<and> x = word_of_nat (unat x)"
        by (simp add: word_le_nat_alt)
      then show "\<exists>k. unat from \<le> k \<and> k \<le> unat to \<and> x = word_of_nat k" by blast
    qed
    finally show ?thesis .
  qed
  then show ?thesis by blast
qed

lemma length_blockNumbers:
  "length (blockNumbers from to) = (if to < from then 0 else Suc (unat to) - unat from)"
  by (auto simp: blockNumbers_def word_less_nat_alt)

subsection \<open>Store\<close>

lemma strings_HSet: "strings (snd (HSet rf key field v db)) = strings db"
  by (simp add: HSet_def split: option.splits)

lemma strings_saveFields: "strings (snd (saveFields rf key datas db)) = strings db"
proof (induction datas arbitrary: db)
  case Nil
  then show ?case by simp
next
  case (Cons a datas)
  obtain n ds where a: "a = (n, ds)" by (cases a)
  obtain r db1 where h: "HSet rf key (FormatUint (unat n)) ds db = (r, db1)" by (cases "HSet rf key (FormatUint (unat n)) ds db")
  have s1: "strings db1 = strings db" using strings_HSet [of rf key "FormatUint (unat n)" ds db] h by simp
  show ?case
    using Cons.IH [of db1] s1 by (cases r; cases "saveFields rf key datas db1") (auto simp: a h)
qed

lemma strings_SaveTxs: "strings (snd (SaveTxs rdw rf d db)) = strings db"
  using strings_saveFields [of rf "txDataKey rdw" d db]
  by (cases "saveFields rf (txDataKey rdw) d db") (simp add: SaveTxs_def)

lemma strings_saveAddrs: "strings (snd (saveAddrs rdw rf d db)) = strings db"
proof (induction d arbitrary: db)
  case Nil
  then show ?case by simp
next
  case (Cons a d)
  obtain addr ds where a: "a = (addr, ds)" by (cases a)
  obtain errs db1 where h: "saveFields rf (logDataKey rdw addr) ds db = (errs, db1)"
    by (cases "saveFields rf (logDataKey rdw addr) ds db")
  have s1: "strings db1 = strings db" using strings_saveFields [of rf "logDataKey rdw addr" ds db] h by simp
  show ?case
    using Cons.IH [of db1] s1 by (cases "saveAddrs rdw rf d db1") (simp add: a h)
qed

lemma strings_SaveLogTxs: "strings (snd (SaveLogTxs rdw rf d db)) = strings db"
  using strings_saveAddrs [of rdw rf d db]
  by (cases "saveAddrs rdw rf d db") (simp add: SaveLogTxs_def)

lemma SetLastRecordedBlock_cases:
  "SetLastRecordedBlock rdw rf b db = (r, db') \<Longrightarrow>
     (r = None \<and> db' = db\<lparr>strings := (strings db)(lastRecordedBlockKey rdw \<mapsto> FormatUint (unat b))\<rparr>) \<or>
     (r \<noteq> None \<and> db' = db)"
  by (auto simp: SetLastRecordedBlock_def Set_rdb_def split: option.splits)

lemma Get_after_Set:
  assumes "SetErr rf (lastRecordedBlockKey rdw) = None" "GetErr rf' (lastRecordedBlockKey rdw) = None"
  shows "GetLastRecordedBlock rdw rf' (snd (SetLastRecordedBlock rdw rf c db)) = Inr c"
  using assms
  by (simp add: GetLastRecordedBlock_def Get_rdb_def SetLastRecordedBlock_def Set_rdb_def ParseUint_FormatUint)

lemma Get_absent:
  assumes "strings db (lastRecordedBlockKey rdw) = None" "GetErr rf (lastRecordedBlockKey rdw) = None"
  shows "GetLastRecordedBlock rdw rf db = Inr 0"
  using assms by (simp add: GetLastRecordedBlock_def Get_rdb_def)

lemma Get_stored:
  assumes "strings db (lastRecordedBlockKey rdw) = Some (FormatUint (unat c))" "GetErr rf (lastRecordedBlockKey rdw) = None"
  shows "GetLastRecordedBlock rdw rf db = Inr c"
  using assms by (simp add: GetLastRecordedBlock_def Get_rdb_def ParseUint_FormatUint)

subsection \<open>Observers\<close>

lemma windowsOf_append: "windowsOf (a @ b) = windowsOf a @ windowsOf b"
  by (induction a rule: windowsOf.induct) auto

lemma fetchedBlocks_append: "fetchedBlocks (a @ b) = fetchedBlocks a @ fetchedBlocks b"
  by (induction a rule: fetchedBlocks.induct) auto

lemma logQueries_append: "logQueries (a @ b) = logQueries a @ logQueries b"
  by (induction a rule: logQueries.induct) auto

lemma checkpointWrites_append: "checkpointWrites (a @ b) = checkpointWrites a @ checkpointWrites b"
  by (induction a rule: checkpointWrites.induct) auto

lemma windowsOf_fetches: "windowsOf (map CallBlockByNumber ns) = []"
  by (induction ns) auto

lemma fetchedBlocks_fetches: "fetchedBlocks (map CallBlockByNumber ns) = ns"
  by (induction ns) auto

lemma logQueries_fetches: "logQueries (map CallBlockByNumber ns) = []"
  by (induction ns) auto

lemma checkpointWrites_fetches: "checkpointWrites (map CallBlockByNumber ns) = []"
  by (induction ns) auto

lemmas observers =
  windowsOf_append fetchedBlocks_append logQueries_append checkpointWrites_append
  windowsOf_fetches fetchedBlocks_fetches logQueries_fetches checkpointWrites_fetches

subsection \<open>One iteration\<close>

lemma windowsOf_txsIteration:
  "windowsOf (fst (txsIteration rdw en toBlock batchSize rolling firstRun l db)) =
     (case clientBlockNumber en of
        Inl e \<Rightarrow> []
      | Inr cur \<Rightarrow> [(thisFromBlock firstRun l, thisToBlock (thisFromBlock firstRun l) batchSize cur rolling toBlock)])"
  by (simp add: txsIteration_def Let_def observers split: sum.splits option.splits prod.splits)

lemma windowsOf_logsIteration:
  "windowsOf (fst (logsIteration rdw en addresses toBlock batchSize rolling firstRun l db)) =
     (case clientBlockNumber en of
        Inl e \<Rightarrow> []
      | Inr cur \<Rightarrow> [(thisFromBlock firstRun l, thisToBlock (thisFromBlock firstRun l) batchSize cur rolling toBlock)])"
  by (simp add: logsIteration_def Let_def observers split: sum.splits option.splits prod.splits)

lemma txsIteration_Next:
  "txsIteration rdw en toBlock batchSize rolling firstRun l db = (ev, db', Next t) \<Longrightarrow>
     \<exists>cur. clientBlockNumber en = Inr cur \<and>
           t = thisToBlock (thisFromBlock firstRun l) batchSize cur rolling toBlock"
  by (auto simp: txsIteration_def Let_def split: sum.splits option.splits prod.splits if_splits)

lemma logsIteration_Next:
  "logsIteration rdw en addresses toBlock batchSize rolling firstRun l db = (ev, db', Next t) \<Longrightarrow>
     \<exists>cur. clientBlockNumber en = Inr cur \<and>
           t = thisToBlock (thisFromBlock firstRun l) batchSize cur rolling toBlock"
  by (auto simp: logsIteration_def Let_def split: sum.splits option.splits prod.splits if_splits)

lemma fetchedBlocks_txsIteration:
  "set (fetchedBlocks (fst (txsIteration rdw en toBlock batchSize rolling firstRun l db))) \<subseteq>
     (case clientBlockNumber en of
        Inl e \<Rightarrow> {}
      | Inr cur \<Rightarrow>
          (if thisFromBlock firstRun l \<le> thisToBlock (thisFromBlock firstRun l) batchSize cur rolling toBlock \<and>
              thisToBlock (thisFromBlock firstRun l) batchSize cur rolling toBlock = - 1
           then UNIV
           else set (blockNumbers (thisFromBlock firstRun l)
                      (thisToBlock (thisFromBlock firstRun l) batchSize cur rolling toBlock))))"
  by (simp add: txsIteration_def Let_def observers split: sum.splits option.splits prod.splits)

lemma checkpointWrites_txsIteration:
  "set (checkpointWrites (fst (txsIteration rdw en toBlock batchSize rolling firstRun l db))) \<subseteq>
     (case clientBlockNumber en of
        Inl e \<Rightarrow> {}
      | Inr cur \<Rightarrow> {thisToBlock (thisFromBlock firstRun l) batchSize cur rolling toBlock})"
  by (simp add: txsIteration_def Let_def observers split: sum.splits option.splits prod.splits)

lemma checkpointWrites_logsIteration:
  "set (checkpointWrites (fst (logsIteration rdw en addresses toBlock batchSize rolling firstRun l db))) \<subseteq>
     (case clientBlockNumber en of
        Inl e \<Rightarrow> {}
      | Inr cur \<Rightarrow> {thisToBlock (thisFromBlock firstRun l) batchSize cur rolling toBlock})"
  by (simp add: logsIteration_def Let_def observers split: sum.splits option.splits prod.splits)

lemma logQueries_logsIteration:
  "logQueries (fst (logsIteration rdw en addresses toBlock batchSize rolling firstRun l db)) =
     (case clientBlockNumber en of
        Inl e \<Rightarrow> []
      | Inr cur \<Rightarrow> [(thisFromBlock firstRun l, thisToBlock (thisFromBlock firstRun l) batchSize cur rolling toBlock)])"
  by (simp add: logsIteration_def Let_def observers split: sum.splits option.splits prod.splits)

lemma fetchedBlocks_logsIteration:
  "fetchedBlocks (fst (logsIteration rdw en addresses toBlock batchSize rolling firstRun l db)) = []"
  by (simp add: logsIteration_def Let_def observers split: sum.splits option.splits prod.splits)

lemma logQueries_txsIteration:
  "logQueries (fst (txsIteration rdw en toBlock batchSize rolling firstRun l db)) = []"
  by (simp add: txsIteration_def Let_def observers split: sum.splits option.splits prod.splits)

subsection \<open>Word facts\<close>

lemma less_plus_one: "(l :: u64) \<noteq> - 1 \<Longrightarrow> l < l + 1"
  by (metis inc_less_eq_triv_imp linorder_less_linear word_le_less_eq)

lemma window_empty_exact: "sint ((t :: u64) - (l + 1) + 1) = 0 \<Longrightarrow> t = l"
proof -
  assume "sint (t - (l + 1) + 1) = 0"
  then have "t - (l + 1) + 1 = 0" by (metis signed_eq_0_iff)
  then show ?thesis by simp
qed

subsection \<open>A resumed iteration\<close>

lemma txsIteration_Next_resumed:
  assumes "txsIteration rdw en toBlock batchSize rolling False l db = (ev, db', Next t)" "l \<noteq> - 1"
  shows "l \<le> t \<and> t \<noteq> - 1"
proof -
  obtain cur where cur: "clientBlockNumber en = Inr cur"
    and t: "t = thisToBlock (l + 1) batchSize cur rolling toBlock"
    using txsIteration_Next [OF assms(1)] by (auto simp: thisFromBlock_def)
  have n0: "\<not> numberOfBlocks (l + 1) t < 0"
    and ov: "\<not> (l + 1 \<le> t \<and> t = - 1)"
    and len: "int (length (blockNumbers (l + 1) t)) = numberOfBlocks (l + 1) t"
    using assms(1) cur t
    by (auto simp: txsIteration_def Let_def thisFromBlock_def split: option.splits prod.splits if_splits)
  show ?thesis
  proof (cases "t < l + 1")
    case True
    then have "numberOfBlocks (l + 1) t = 0" using len by (simp add: blockNumbers_def)
    then have "t = l" by (simp add: numberOfBlocks_def window_empty_exact)
    then show ?thesis using assms(2) by simp
  next
    case False
    then have "l + 1 \<le> t" by simp
    moreover have "l < l + 1" using assms(2) by (rule less_plus_one)
    ultimately show ?thesis using ov by auto
  qed
qed

lemma thisToBlock_not_largest:
  "currentBlock \<noteq> - 1 \<Longrightarrow> thisToBlock from batchSize currentBlock rolling toBlock \<noteq> - 1"
  using thisToBlock_le_current [of "from" batchSize currentBlock rolling toBlock]
  by (metis word_order.extremum_unique)

lemma fetched_txsIteration_resumed:
  assumes "l \<noteq> - 1" "clientBlockNumber en \<noteq> Inr (- 1)"
    and "n \<in> set (fetchedBlocks (fst (txsIteration rdw en toBlock batchSize rolling False l db)))"
  shows "l < n"
proof -
  have "l < l + 1" using assms(1) by (rule less_plus_one)
  moreover have "l + 1 \<le> n"
  proof (cases "clientBlockNumber en")
    case (Inl e)
    then show ?thesis
      using assms(3) fetchedBlocks_txsIteration [of rdw en toBlock batchSize rolling False l db] by simp
  next
    case (Inr cur)
    then have "cur \<noteq> - 1" using assms(2) by auto
    then have "thisToBlock (l + 1) batchSize cur rolling toBlock \<noteq> - 1"
      by (rule thisToBlock_not_largest)
    then show ?thesis
      using assms(3) fetchedBlocks_txsIteration [of rdw en toBlock batchSize rolling False l db] Inr
      by (auto simp: set_blockNumbers thisFromBlock_def)
  qed
  ultimately show ?thesis by simp
qed

subsection \<open>The loops\<close>

lemma txsLoop_first_window:
  "windowsOf (fst (txsLoop fuel rdw world toBlock batchSize rolling firstRun i l db)) = w # ws \<Longrightarrow>
     fst w = thisFromBlock firstRun l"
proof (cases fuel)
  case 0
  assume "windowsOf (fst (txsLoop fuel rdw world toBlock batchSize rolling firstRun i l db)) = w # ws"
  then show ?thesis using 0 by (simp split: if_splits)
next
  case (Suc fuel')
  assume a: "windowsOf (fst (txsLoop fuel rdw world toBlock batchSize rolling firstRun i l db)) = w # ws"
  obtain ev db' out where it: "txsIteration rdw (world i) toBlock batchSize rolling firstRun l db = (ev, db', out)"
    by (cases "txsIteration rdw (world i) toBlock batchSize rolling firstRun l db")
  have wv: "windowsOf ev = [] \<or> (\<exists>t. windowsOf ev = [(thisFromBlock firstRun l, t)])"
    using windowsOf_txsIteration [of rdw "world i" toBlock batchSize rolling firstRun l db] it
    by (cases "clientBlockNumber (world i)") auto
  show ?thesis
  proof (cases out)
    case (Next t)
    obtain cur where "clientBlockNumber (world i) = Inr cur"
      using txsIteration_Next it Next by blast
    then have "\<exists>t. windowsOf ev = [(thisFromBlock firstRun l, t)]"
      using windowsOf_txsIteration [of rdw "world i" toBlock batchSize rolling firstRun l db] it by simp
    then show ?thesis
      using a Suc it Next by (auto simp: observers split: if_splits prod.splits)
  next
    case (Return e)
    then show ?thesis using a Suc it wv by (auto split: if_splits)
  next
    case (Stuck x)
    then show ?thesis using a Suc it wv by (auto split: if_splits)
  qed
qed

lemma logsLoop_first_window:
  "windowsOf (fst (logsLoop fuel rdw world addresses toBlock batchSize rolling firstRun i l db)) = w # ws \<Longrightarrow>
     fst w = thisFromBlock firstRun l"
proof (cases fuel)
  case 0
  assume "windowsOf (fst (logsLoop fuel rdw world addresses toBlock batchSize rolling firstRun i l db)) = w # ws"
  then show ?thesis using 0 by (simp split: if_splits)
next
  case (Suc fuel')
  assume a: "windowsOf (fst (logsLoop fuel rdw world addresses toBlock batchSize rolling firstRun i l db)) = w # ws"
  obtain ev db' out where it: "logsIteration rdw (world i) addresses toBlock batchSize rolling firstRun l db = (ev, db', out)"
    by (cases "logsIteration rdw (world i) addresses toBlock batchSize rolling firstRun l db")
  have wv: "windowsOf ev = [] \<or> (\<exists>t. windowsOf ev = [(thisFromBlock firstRun l, t)])"
    using windowsOf_logsIteration [of rdw "world i" addresses toBlock batchSize rolling firstRun l db] it
    by (cases "clientBlockNumber (world i)") auto
  show ?thesis
  proof (cases out)
    case (Next t)
    obtain cur where "clientBlockNumber (world i) = Inr cur"
      using logsIteration_Next it Next by blast
    then have "\<exists>t. windowsOf ev = [(thisFromBlock firstRun l, t)]"
      using windowsOf_logsIteration [of rdw "world i" addresses toBlock batchSize rolling firstRun l db] it by simp
    then show ?thesis
      using a Suc it Next by (auto simp: observers split: if_splits prod.splits)
  next
    case (Return e)
    then show ?thesis using a Suc it wv by (auto split: if_splits)
  next
    case (Stuck x)
    then show ?thesis using a Suc it wv by (auto split: if_splits)
  qed
qed

lemma txsLoop_never_refetches:
  assumes heights: "\<forall>i. clientBlockNumber (world i) \<noteq> Inr (- 1)"
  shows "c \<le> l \<Longrightarrow> l \<noteq> - 1 \<Longrightarrow>
     \<forall>n \<in> set (fetchedBlocks (fst (txsLoop fuel rdw world toBlock batchSize rolling False i l db))). c < n"
proof (induction fuel arbitrary: i l db)
  case 0
  then show ?case by simp
next
  case (Suc fuel)
  obtain ev db' out where it: "txsIteration rdw (world i) toBlock batchSize rolling False l db = (ev, db', out)"
    by (cases "txsIteration rdw (world i) toBlock batchSize rolling False l db")
  have here: "\<forall>m \<in> set (fetchedBlocks ev). c < m"
    using fetched_txsIteration_resumed [OF Suc.prems(2), where rdw = rdw and en = "world i"
        and toBlock = toBlock and batchSize = batchSize and rolling = rolling and db = db] it Suc.prems(1) heights
    by fastforce
  show ?case
  proof (cases out)
    case (Next t)
    have inv: "c \<le> t" "t \<noteq> - 1"
      using txsIteration_Next_resumed [OF it [unfolded Next] Suc.prems(2)] Suc.prems(1) by auto
    obtain ev' db'' r where rest: "txsLoop fuel rdw world toBlock batchSize rolling False (Suc i) t db' = (ev', db'', r)"
      by (cases "txsLoop fuel rdw world toBlock batchSize rolling False (Suc i) t db'")
    have later: "\<forall>m \<in> set (fetchedBlocks ev'). c < m"
      using Suc.IH [OF inv, where i = "Suc i" and db = db'] rest by simp
    show ?thesis
      using it Next rest here later
      by (auto simp: observers)
  next
    case (Return e)
    then show ?thesis using it here by auto
  next
    case (Stuck x)
    then show ?thesis using it here by auto
  qed
qed

lemma txsLoop_chained:
  "chained l (windowsOf (fst (txsLoop fuel rdw world toBlock batchSize rolling True i l db)))"
proof (induction fuel arbitrary: i l db)
  case 0
  then show ?case by simp
next
  case (Suc fuel)
  obtain ev db' out where it: "txsIteration rdw (world i) toBlock batchSize rolling True l db = (ev, db', out)"
    by (cases "txsIteration rdw (world i) toBlock batchSize rolling True l db")
  have wv: "windowsOf ev = [] \<or> (\<exists>t. windowsOf ev = [(l, t)])"
    using windowsOf_txsIteration [of rdw "world i" toBlock batchSize rolling True l db] it
    by (cases "clientBlockNumber (world i)") (auto simp: thisFromBlock_def)
  show ?case
  proof (cases out)
    case (Next t)
    obtain cur where cur: "clientBlockNumber (world i) = Inr cur"
      and t: "t = thisToBlock (thisFromBlock True l) batchSize cur rolling toBlock"
      using txsIteration_Next [OF it [unfolded Next]] by blast
    have w: "windowsOf ev = [(l, t)]"
      using windowsOf_txsIteration [of rdw "world i" toBlock batchSize rolling True l db] it cur t
      by (simp add: thisFromBlock_def)
    obtain ev' db'' r where rest: "txsLoop fuel rdw world toBlock batchSize rolling True (Suc i) t db' = (ev', db'', r)"
      by (cases "txsLoop fuel rdw world toBlock batchSize rolling True (Suc i) t db'")
    have "chained t (windowsOf ev')" using Suc.IH [where i = "Suc i" and l = t and db = db'] rest by simp
    then show ?thesis using it Next rest w by (simp add: observers)
  next
    case (Return e)
    then show ?thesis using it wv by auto
  next
    case (Stuck x)
    then show ?thesis using it wv by auto
  qed
qed

lemma logsLoop_chained:
  "chained l (windowsOf (fst (logsLoop fuel rdw world addresses toBlock batchSize rolling True i l db)))"
proof (induction fuel arbitrary: i l db)
  case 0
  then show ?case by simp
next
  case (Suc fuel)
  obtain ev db' out where it: "logsIteration rdw (world i) addresses toBlock batchSize rolling True l db = (ev, db', out)"
    by (cases "logsIteration rdw (world i) addresses toBlock batchSize rolling True l db")
  have wv: "windowsOf ev = [] \<or> (\<exists>t. windowsOf ev = [(l, t)])"
    using windowsOf_logsIteration [of rdw "world i" addresses toBlock batchSize rolling True l db] it
    by (cases "clientBlockNumber (world i)") (auto simp: thisFromBlock_def)
  show ?case
  proof (cases out)
    case (Next t)
    obtain cur where cur: "clientBlockNumber (world i) = Inr cur"
      and t: "t = thisToBlock (thisFromBlock True l) batchSize cur rolling toBlock"
      using logsIteration_Next [OF it [unfolded Next]] by blast
    have w: "windowsOf ev = [(l, t)]"
      using windowsOf_logsIteration [of rdw "world i" addresses toBlock batchSize rolling True l db] it cur t
      by (simp add: thisFromBlock_def)
    obtain ev' db'' r where rest: "logsLoop fuel rdw world addresses toBlock batchSize rolling True (Suc i) t db' = (ev', db'', r)"
      by (cases "logsLoop fuel rdw world addresses toBlock batchSize rolling True (Suc i) t db'")
    have "chained t (windowsOf ev')" using Suc.IH [where i = "Suc i" and l = t and db = db'] rest by simp
    then show ?thesis using it Next rest w by (simp add: observers)
  next
    case (Return e)
    then show ?thesis using it wv by auto
  next
    case (Stuck x)
    then show ?thesis using it wv by auto
  qed
qed

lemma no_wrap:
  assumes "(l :: u64) \<le> M" "unat M + 1 + unat (b :: u64) < 2 ^ 64"
  shows "unat (l + 1 + b) = unat l + 1 + unat b" "unat (l + 1) = unat l + 1"
proof -
  have lm: "unat l \<le> unat M" using assms(1) by (simp add: word_le_nat_alt)
  have "unat l + 1 < 2 ^ 64" using lm assms(2) by simp
  then show s: "unat (l + 1) = unat l + 1"
    by (simp add: unat_word_ariths(1))
  have "unat l + 1 + unat b < 2 ^ 64" using lm assms(2) by simp
  then show "unat (l + 1 + b) = unat l + 1 + unat b"
    using s by (simp add: unat_word_ariths(1))
qed

lemma thisToBlock_between:
  assumes "c \<le> l" "l \<le> M" "unat M + 1 + unat batchSize < 2 ^ 64" "c \<le> cur" "cur \<le> M"
    "rolling \<or> l < toBlock"
  shows "c \<le> thisToBlock (l + 1) batchSize cur rolling toBlock \<and> thisToBlock (l + 1) batchSize cur rolling toBlock \<le> M"
proof -
  have u: "unat (l + 1 + batchSize) = unat l + 1 + unat batchSize"
    using no_wrap(1) [OF assms(2,3)] .
  have a: "c \<le> l + 1 + batchSize"
    using assms(1) u by (simp add: word_le_nat_alt)
  have b: "c \<le> chopToCurrent cur (l + 1 + batchSize)" "chopToCurrent cur (l + 1 + batchSize) \<le> M"
    using a assms(4,5) by (auto simp: chopToCurrent_def)
  have "c \<le> toBlock" if "\<not> rolling" using that assms(1,6) by auto
  then show ?thesis
    using b by (auto simp: thisToBlock_def chopToBlock_def)
qed

lemma logsLoop_never_requeries:
  assumes "\<forall>i h. clientBlockNumber (world i) = Inr h \<longrightarrow> c \<le> h \<and> h \<le> M"
    and "unat M + 1 + unat batchSize < 2 ^ 64"
  shows "c \<le> l \<Longrightarrow> l \<le> M \<Longrightarrow>
     \<forall>q \<in> set (logQueries (fst (logsLoop fuel rdw world addresses toBlock batchSize rolling False i l db))). c < fst q"
proof (induction fuel arbitrary: i l db)
  case 0
  then show ?case by simp
next
  case (Suc fuel)
  obtain ev db' out where it: "logsIteration rdw (world i) addresses toBlock batchSize rolling False l db = (ev, db', out)"
    by (cases "logsIteration rdw (world i) addresses toBlock batchSize rolling False l db")
  have "unat (l + 1) = unat l + 1" using no_wrap(2) [OF Suc.prems(2) assms(2)] .
  then have lt: "c < l + 1" using Suc.prems(1) by (simp add: word_le_nat_alt word_less_nat_alt)
  have here: "\<forall>q \<in> set (logQueries ev). c < fst q"
    using logQueries_logsIteration [of rdw "world i" addresses toBlock batchSize rolling False l db] it lt
    by (cases "clientBlockNumber (world i)") (auto simp: thisFromBlock_def)
  show ?case
  proof (cases "rolling \<or> l < toBlock")
    case False
    then show ?thesis by simp
  next
    case True
    show ?thesis
    proof (cases out)
      case (Next t)
      obtain cur where cur: "clientBlockNumber (world i) = Inr cur"
        and t: "t = thisToBlock (l + 1) batchSize cur rolling toBlock"
        using logsIteration_Next [OF it [unfolded Next]] by (auto simp: thisFromBlock_def)
      have h: "c \<le> cur" "cur \<le> M" using assms(1) cur by auto
      have inv: "c \<le> t" "t \<le> M"
        using thisToBlock_between [OF Suc.prems(1,2) assms(2) h True] t by auto
      obtain ev' db'' r where rest: "logsLoop fuel rdw world addresses toBlock batchSize rolling False (Suc i) t db' = (ev', db'', r)"
        by (cases "logsLoop fuel rdw world addresses toBlock batchSize rolling False (Suc i) t db'")
      have later: "\<forall>q \<in> set (logQueries ev'). c < fst q"
        using Suc.IH [OF inv, where i = "Suc i" and db = db'] rest by simp
      show ?thesis
        using it Next rest here later by (auto simp: observers)
    next
      case (Return e)
      then show ?thesis using it here by auto
    next
      case (Stuck x)
      then show ?thesis using it here by auto
    qed
  qed
qed

section \<open>Key scoping\<close>

text \<open>
  C10. The record key of transaction mode is the fixed string \<open>ethtxcrawler:txs\<close>, whatever
  the service label; the record key of log mode and the checkpoint key contain the service
  label (\<open>ethtxcrawler\<close>, or \<open>ethtxcrawler@label\<close>), the checkpoint key the mode too. Hence
  two transaction-mode wrappers with different labels save their records under the same key
  (\<open>SaveTxs\<close> does the same for both), while their checkpoint keys differ: a checkpoint
  written by one is not seen by the other.
\<close>

theorem key_scoping_asymmetry:
  "txDataKey (New_rdb label1 md) = ''ethtxcrawler:txs'' \<and>
   serviceLabel (New_rdb label1 md) = (if label1 = [] then ''ethtxcrawler'' else ''ethtxcrawler@'' @ label1) \<and>
   logDataKey (New_rdb label1 md) addr = serviceLabel (New_rdb label1 md) @ '':logs:'' @ addr \<and>
   lastRecordedBlockKey (New_rdb label1 md) = serviceLabel (New_rdb label1 md) @ '':'' @ md @ '':lastRecordedBlock'' \<and>
   (label1 \<noteq> label2 \<longrightarrow>
      txDataKey (New_rdb label1 md) = txDataKey (New_rdb label2 md) \<and>
      SaveTxs (New_rdb label1 md) rf d db = SaveTxs (New_rdb label2 md) rf d db \<and>
      logDataKey (New_rdb label1 md) addr \<noteq> logDataKey (New_rdb label2 md) addr \<and>
      lastRecordedBlockKey (New_rdb label1 md) \<noteq> lastRecordedBlockKey (New_rdb label2 md) \<and>
      GetLastRecordedBlock (New_rdb label2 md) rf' (snd (SetLastRecordedBlock (New_rdb label1 md) rf b db)) =
        GetLastRecordedBlock (New_rdb label2 md) rf' db)"
proof -
  have k1: "txDataKey (New_rdb label1 md) = ''ethtxcrawler:txs''"
    by (simp add: txDataKey_def keyPrefix_def)
  have k2: "serviceLabel (New_rdb label1 md) = (if label1 = [] then ''ethtxcrawler'' else ''ethtxcrawler@'' @ label1)"
    by (simp add: New_rdb_def keyPrefix_def)
  have k3: "logDataKey (New_rdb label1 md) addr = serviceLabel (New_rdb label1 md) @ '':logs:'' @ addr"
    by (simp add: logDataKey_def)
  have k4: "lastRecordedBlockKey (New_rdb label1 md) = serviceLabel (New_rdb label1 md) @ '':'' @ md @ '':lastRecordedBlock''"
    by (simp add: lastRecordedBlockKey_def New_rdb_def)
  have rest: "txDataKey (New_rdb label1 md) = txDataKey (New_rdb label2 md) \<and>
      SaveTxs (New_rdb label1 md) rf d db = SaveTxs (New_rdb label2 md) rf d db \<and>
      logDataKey (New_rdb label1 md) addr \<noteq> logDataKey (New_rdb label2 md) addr \<and>
      lastRecordedBlockKey (New_rdb label1 md) \<noteq> lastRecordedBlockKey (New_rdb label2 md) \<and>
      GetLastRecordedBlock (New_rdb label2 md) rf' (snd (SetLastRecordedBlock (New_rdb label1 md) rf b db)) =
        GetLastRecordedBlock (New_rdb label2 md) rf' db" if ne: "label1 \<noteq> label2"
  proof -
    have a: "txDataKey (New_rdb label1 md) = txDataKey (New_rdb label2 md)"
      by (simp add: txDataKey_def)
    have b: "SaveTxs (New_rdb label1 md) rf d db = SaveTxs (New_rdb label2 md) rf d db"
      by (simp add: SaveTxs_def txDataKey_def)
    have c: "logDataKey (New_rdb label1 md) addr \<noteq> logDataKey (New_rdb label2 md) addr"
      using ne by (auto simp: logDataKey_def New_rdb_def keyPrefix_def)
    have d: "lastRecordedBlockKey (New_rdb label1 md) \<noteq> lastRecordedBlockKey (New_rdb label2 md)"
      using ne by (auto simp: lastRecordedBlockKey_def New_rdb_def keyPrefix_def)
    have e: "GetLastRecordedBlock (New_rdb label2 md) rf' (snd (SetLastRecordedBlock (New_rdb label1 md) rf b db)) =
        GetLastRecordedBlock (New_rdb label2 md) rf' db"
      using d by (auto simp: GetLastRecordedBlock_def Get_rdb_def SetLastRecordedBlock_def Set_rdb_def split: option.splits)
    show ?thesis using a b c d e by blast
  qed
  show ?thesis using k1 k2 k3 k4 rest by blast
qed

theorem key_scoping_asymmetry_witness:
  "''a'' \<noteq> ''b'' \<and>
   txDataKey (New_rdb ''a'' ''txs'') = txDataKey (New_rdb ''b'' ''txs'') \<and>
   SaveTxs (New_rdb ''a'' ''txs'') noFaults [(7, [])] emptyRedis = SaveTxs (New_rdb ''b'' ''txs'') noFaults [(7, [])] emptyRedis \<and>
   lastRecordedBlockKey (New_rdb ''a'' ''txs'') \<noteq> lastRecordedBlockKey (New_rdb ''b'' ''txs'') \<and>
   GetLastRecordedBlock (New_rdb ''b'' ''txs'') noFaults (snd (SetLastRecordedBlock (New_rdb ''a'' ''txs'') noFaults 7 emptyRedis)) =
     GetLastRecordedBlock (New_rdb ''b'' ''txs'') noFaults emptyRedis"
proof -
  have ne: "''a'' \<noteq> ''b''" by simp
  show ?thesis
    using ne key_scoping_asymmetry [of "''a''" "''txs''" "''''" "''b''" noFaults "[(7, [])]" emptyRedis noFaults 7]
    by blast
qed

section \<open>Window bounds\<close>

text \<open>
  C4. For every \<open>thisFromBlock\<close>, \<open>toBlock\<close>, \<open>batchSize\<close> and reported height, the upper
  bound \<open>thisToBlock\<close> is at most the reported height, and at most \<open>toBlock\<close> when
  \<open>rolling\<close> is false; it is computed by chopping to the height first and to \<open>toBlock\<close>
  second. In an iteration of either mode whose height query answered \<open>currentBlock\<close>, every
  window logged, every block requested, every log query and every checkpoint written stays
  within these bounds.
\<close>

theorem window_bound_safety:
  "thisToBlock from batchSize currentBlock rolling toBlock \<le> currentBlock \<and>
   (\<not> rolling \<longrightarrow> thisToBlock from batchSize currentBlock rolling toBlock \<le> toBlock) \<and>
   thisToBlock from batchSize currentBlock rolling toBlock =
     (let t = from + batchSize;
          t = (if t > currentBlock then currentBlock else t)
      in if \<not> rolling \<and> t > toBlock then toBlock else t) \<and>
   (clientBlockNumber en = Inr currentBlock \<longrightarrow>
      (\<forall>w \<in> set (windowsOf (fst (txsIteration rdw en toBlock batchSize rolling firstRun l db))).
          snd w \<le> currentBlock \<and> (\<not> rolling \<longrightarrow> snd w \<le> toBlock)) \<and>
      (\<forall>n \<in> set (fetchedBlocks (fst (txsIteration rdw en toBlock batchSize rolling firstRun l db))).
          n \<le> currentBlock \<and> (\<not> rolling \<longrightarrow> n \<le> toBlock)) \<and>
      (\<forall>t \<in> set (checkpointWrites (fst (txsIteration rdw en toBlock batchSize rolling firstRun l db))).
          t \<le> currentBlock \<and> (\<not> rolling \<longrightarrow> t \<le> toBlock)) \<and>
      (\<forall>q \<in> set (logQueries (fst (logsIteration rdw en addresses toBlock batchSize rolling firstRun l db))).
          snd q \<le> currentBlock \<and> (\<not> rolling \<longrightarrow> snd q \<le> toBlock)) \<and>
      (\<forall>t \<in> set (checkpointWrites (fst (logsIteration rdw en addresses toBlock batchSize rolling firstRun l db))).
          t \<le> currentBlock \<and> (\<not> rolling \<longrightarrow> t \<le> toBlock)))"
proof -
  let ?from = "thisFromBlock firstRun l"
  let ?to = "thisToBlock ?from batchSize currentBlock rolling toBlock"
  have b1: "thisToBlock f batchSize currentBlock rolling toBlock \<le> currentBlock" for f
    by (rule thisToBlock_le_current)
  have b2: "\<not> rolling \<longrightarrow> thisToBlock f batchSize currentBlock rolling toBlock \<le> toBlock" for f
    using thisToBlock_le_toBlock by blast
  have order: "thisToBlock from batchSize currentBlock rolling toBlock =
     (let t = from + batchSize;
          t = (if t > currentBlock then currentBlock else t)
      in if \<not> rolling \<and> t > toBlock then toBlock else t)"
    by (simp add: thisToBlock_def chopToBlock_def chopToCurrent_def Let_def)
  have iter: "(\<forall>w \<in> set (windowsOf (fst (txsIteration rdw en toBlock batchSize rolling firstRun l db))).
          snd w \<le> currentBlock \<and> (\<not> rolling \<longrightarrow> snd w \<le> toBlock)) \<and>
      (\<forall>n \<in> set (fetchedBlocks (fst (txsIteration rdw en toBlock batchSize rolling firstRun l db))).
          n \<le> currentBlock \<and> (\<not> rolling \<longrightarrow> n \<le> toBlock)) \<and>
      (\<forall>t \<in> set (checkpointWrites (fst (txsIteration rdw en toBlock batchSize rolling firstRun l db))).
          t \<le> currentBlock \<and> (\<not> rolling \<longrightarrow> t \<le> toBlock)) \<and>
      (\<forall>q \<in> set (logQueries (fst (logsIteration rdw en addresses toBlock batchSize rolling firstRun l db))).
          snd q \<le> currentBlock \<and> (\<not> rolling \<longrightarrow> snd q \<le> toBlock)) \<and>
      (\<forall>t \<in> set (checkpointWrites (fst (logsIteration rdw en addresses toBlock batchSize rolling firstRun l db))).
          t \<le> currentBlock \<and> (\<not> rolling \<longrightarrow> t \<le> toBlock))"
    if cur: "clientBlockNumber en = Inr currentBlock"
  proof -
    have w: "windowsOf (fst (txsIteration rdw en toBlock batchSize rolling firstRun l db)) = [(?from, ?to)]"
      using windowsOf_txsIteration [of rdw en toBlock batchSize rolling firstRun l db] cur by simp
    have f: "set (fetchedBlocks (fst (txsIteration rdw en toBlock batchSize rolling firstRun l db))) \<subseteq> {n. n \<le> ?to}"
    proof (cases "?from \<le> ?to \<and> ?to = - 1")
      case True
      then have "n \<le> ?to" for n by simp
      then show ?thesis by blast
    next
      case False
      then show ?thesis
        using fetchedBlocks_txsIteration [of rdw en toBlock batchSize rolling firstRun l db] cur
        by (auto simp: set_blockNumbers)
    qed
    have c: "set (checkpointWrites (fst (txsIteration rdw en toBlock batchSize rolling firstRun l db))) \<subseteq> {?to}"
      using checkpointWrites_txsIteration [of rdw en toBlock batchSize rolling firstRun l db] cur by simp
    have q: "logQueries (fst (logsIteration rdw en addresses toBlock batchSize rolling firstRun l db)) = [(?from, ?to)]"
      using logQueries_logsIteration [of rdw en addresses toBlock batchSize rolling firstRun l db] cur by simp
    have c': "set (checkpointWrites (fst (logsIteration rdw en addresses toBlock batchSize rolling firstRun l db))) \<subseteq> {?to}"
      using checkpointWrites_logsIteration [of rdw en addresses toBlock batchSize rolling firstRun l db] cur by simp
    have le: "n \<le> ?to \<Longrightarrow> n \<le> currentBlock \<and> (\<not> rolling \<longrightarrow> n \<le> toBlock)" for n
      using b1 [of ?from] b2 [of ?from] by auto
    show ?thesis
      using w f c q c' le by (auto simp del: thisToBlock_def)
  qed
  show ?thesis using b1 b2 order iter by blast
qed

theorem window_bound_safety_witness:
  "clientBlockNumber (quietNode 110) = Inr 110 \<and>
   thisToBlock 100 25 110 False 105 \<le> 110 \<and>
   thisToBlock 100 25 110 False 105 \<le> 105 \<and>
   list_all (\<lambda>w. snd w \<le> 110 \<and> snd w \<le> 105)
     (windowsOf (fst (txsIteration txsWrapper (quietNode 110) 105 25 False False 99 emptyRedis))) \<and>
   list_all (\<lambda>n. n \<le> 110 \<and> n \<le> 105)
     (fetchedBlocks (fst (txsIteration txsWrapper (quietNode 110) 105 25 False False 99 emptyRedis))) \<and>
   list_all (\<lambda>t. t \<le> 110 \<and> t \<le> 105)
     (checkpointWrites (fst (txsIteration txsWrapper (quietNode 110) 105 25 False False 99 emptyRedis))) \<and>
   list_all (\<lambda>q. snd q \<le> 110 \<and> snd q \<le> 105)
     (logQueries (fst (logsIteration txsWrapper (quietNode 110) [] 105 25 False False 99 emptyRedis)))"
proof -
  have h: "clientBlockNumber (quietNode 110) = Inr 110" by (simp add: quietNode_def)
  show ?thesis
    using h window_bound_safety [of 100 25 110 False 105 "quietNode 110" txsWrapper False 99 emptyRedis "[]"]
    by (simp add: list_all_iff)
qed

subsection \<open>Grouping the logs\<close>

lemma bucket_addLog:
  "bucket (addLog log acc) a n =
     bucket acc a n @ (if ToLower (LogAddress log) = a \<and> LogBlockNumber log = n then [logData log] else [])"
  by (auto simp: bucket_def addLog_def Let_def AList.update_conv' split: option.splits)

lemma bucket_fold_addLog:
  "bucket (fold addLog logs acc) a n =
     bucket acc a n @ map logData (filter (\<lambda>log. ToLower (LogAddress log) = a \<and> LogBlockNumber log = n) logs)"
  by (induction logs arbitrary: acc) (auto simp: bucket_addLog)

lemma keys_addLog: "fst ` set (addLog log acc) = insert (ToLower (LogAddress log)) (fst ` set acc)"
  by (simp add: addLog_def Let_def AList.dom_update)

lemma keys_fold_addLog:
  "fst ` set (fold addLog logs acc) = (\<lambda>log. ToLower (LogAddress log)) ` set logs \<union> fst ` set acc"
  by (induction logs arbitrary: acc) (auto simp: keys_addLog)

lemma distinct_addLog: "distinct (map fst acc) \<Longrightarrow> distinct (map fst (addLog log acc))"
  by (simp add: addLog_def Let_def AList.distinct_update)

lemma distinct_fold_addLog: "distinct (map fst acc) \<Longrightarrow> distinct (map fst (fold addLog logs acc))"
  by (induction logs arbitrary: acc) (auto simp: distinct_addLog)

subsection \<open>Order of the writes in one iteration\<close>

lemma txsIteration_checkpoint_after_save:
  assumes "txsIteration rdw en toBlock batchSize rolling firstRun l db = (ev, db', out)"
    and "CallSetLastRecordedBlock t \<in> set ev"
  shows "\<exists>pre d. ev = pre @ [CallSaveTxs d, CallSetLastRecordedBlock t] \<and> checkpointWrites pre = [] \<and>
           fst (SaveTxs rdw (faults en) d db) = None"
  using assms
  by (auto simp: txsIteration_def Let_def observers split: sum.splits option.splits prod.splits if_splits)

lemma txsIteration_save_failed:
  assumes "txsIteration rdw en toBlock batchSize rolling firstRun l db = (ev, db', out)"
    and "CallSaveTxs d \<in> set ev" "fst (SaveTxs rdw (faults en) d db) = Some e"
  shows "out = Return (Wrap e ''failed to save tx data to redis'') \<and> checkpointWrites ev = [] \<and> strings db' = strings db"
  using assms strings_SaveTxs [of rdw "faults en" d db]
  by (auto simp: txsIteration_def Let_def observers split: sum.splits option.splits prod.splits if_splits)

lemma logsIteration_checkpoint_after_save:
  assumes "logsIteration rdw en addresses toBlock batchSize rolling firstRun l db = (ev, db', out)"
    and "CallSetLastRecordedBlock t \<in> set ev"
  shows "\<exists>pre d. ev = pre @ [CallSaveLogTxs d, CallSetLastRecordedBlock t] \<and> checkpointWrites pre = [] \<and>
           fst (SaveLogTxs rdw (faults en) d db) = None"
  using assms
  by (auto simp: logsIteration_def Let_def observers split: sum.splits option.splits prod.splits if_splits)

lemma logsIteration_save_failed:
  assumes "logsIteration rdw en addresses toBlock batchSize rolling firstRun l db = (ev, db', out)"
    and "CallSaveLogTxs d \<in> set ev" "fst (SaveLogTxs rdw (faults en) d db) = Some e"
  shows "(\<exists>msg. out = Return (Wrap e msg)) \<and> checkpointWrites ev = [] \<and> strings db' = strings db"
  using assms strings_SaveLogTxs [of rdw "faults en" d db]
  by (auto simp: logsIteration_def Let_def observers split: sum.splits option.splits prod.splits if_splits)

lemma SaveTxs_strings: "SaveTxs rdw rf d db = (r, db1) \<Longrightarrow> strings db1 = strings db"
  using strings_SaveTxs [of rdw rf d db] by simp

lemma SaveLogTxs_strings: "SaveLogTxs rdw rf d db = (r, db1) \<Longrightarrow> strings db1 = strings db"
  using strings_SaveLogTxs [of rdw rf d db] by simp

lemma txsIteration_strings:
  assumes "txsIteration rdw en toBlock batchSize rolling firstRun l db = (ev, db', out)"
  shows "strings db' = strings db \<or>
         (\<exists>t. checkpointWrites ev = [t] \<and> out = Next t \<and>
              strings db' = (strings db)(lastRecordedBlockKey rdw \<mapsto> FormatUint (unat t)))"
  using assms
  by (auto simp: txsIteration_def Let_def observers split: sum.splits option.splits prod.splits if_splits
      dest!: SaveTxs_strings SetLastRecordedBlock_cases)

lemma logsIteration_strings:
  assumes "logsIteration rdw en addresses toBlock batchSize rolling firstRun l db = (ev, db', out)"
  shows "strings db' = strings db \<or>
         (\<exists>t. checkpointWrites ev = [t] \<and> out = Next t \<and>
              strings db' = (strings db)(lastRecordedBlockKey rdw \<mapsto> FormatUint (unat t)))"
  using assms
  by (auto simp: logsIteration_def Let_def observers split: sum.splits option.splits prod.splits if_splits
      dest!: SaveLogTxs_strings SetLastRecordedBlock_cases)

subsection \<open>Entering the loops\<close>

lemma txsLoop_done:
  "\<not> (rolling \<or> l < toBlock) \<Longrightarrow>
     txsLoop fuel rdw world toBlock batchSize rolling firstRun i l db = ([], db, Some (Returned None))"
  by (cases fuel) simp_all

lemma logsLoop_done:
  "\<not> (rolling \<or> l < toBlock) \<Longrightarrow>
     logsLoop fuel rdw world addresses toBlock batchSize rolling firstRun i l db = ([], db, Some (Returned None))"
  by (cases fuel) simp_all

lemma txsLoop_starts:
  assumes "0 < fuel" "rolling \<or> l < toBlock" "clientBlockNumber (world i) = Inr h"
  shows "\<exists>ws. windowsOf (fst (txsLoop fuel rdw world toBlock batchSize rolling firstRun i l db)) =
           (thisFromBlock firstRun l, thisToBlock (thisFromBlock firstRun l) batchSize h rolling toBlock) # ws"
proof -
  obtain fuel' where f: "fuel = Suc fuel'" using assms(1) by (cases fuel) auto
  obtain ev db' out where it: "txsIteration rdw (world i) toBlock batchSize rolling firstRun l db = (ev, db', out)"
    by (cases "txsIteration rdw (world i) toBlock batchSize rolling firstRun l db")
  have w: "windowsOf ev = [(thisFromBlock firstRun l, thisToBlock (thisFromBlock firstRun l) batchSize h rolling toBlock)]"
    using windowsOf_txsIteration [of rdw "world i" toBlock batchSize rolling firstRun l db] it assms(3) by simp
  show ?thesis
    using f it w assms(2) by (cases out) (auto simp: observers split: prod.splits)
qed

lemma logsLoop_starts:
  assumes "0 < fuel" "rolling \<or> l < toBlock" "clientBlockNumber (world i) = Inr h"
  shows "\<exists>ws. windowsOf (fst (logsLoop fuel rdw world addresses toBlock batchSize rolling firstRun i l db)) =
           (thisFromBlock firstRun l, thisToBlock (thisFromBlock firstRun l) batchSize h rolling toBlock) # ws"
proof -
  obtain fuel' where f: "fuel = Suc fuel'" using assms(1) by (cases fuel) auto
  obtain ev db' out where it: "logsIteration rdw (world i) addresses toBlock batchSize rolling firstRun l db = (ev, db', out)"
    by (cases "logsIteration rdw (world i) addresses toBlock batchSize rolling firstRun l db")
  have w: "windowsOf ev = [(thisFromBlock firstRun l, thisToBlock (thisFromBlock firstRun l) batchSize h rolling toBlock)]"
    using windowsOf_logsIteration [of rdw "world i" addresses toBlock batchSize rolling firstRun l db] it assms(3) by simp
  show ?thesis
    using f it w assms(2) by (cases out) (auto simp: observers split: prod.splits)
qed

subsection \<open>Unfolding the definitions on concrete runs\<close>

lemmas run_defs =
  txsIteration_def logsIteration_def thisFromBlock_def thisToBlock_def chopToBlock_def chopToCurrent_def
  numberOfBlocks_def blockNumbers_def collectBlocks_def txDatas_def groupLogs_def addLog_def logData_def
  SaveTxs_def SaveLogTxs_def SetLastRecordedBlock_def GetLastRecordedBlock_def HSet_def Set_rdb_def Get_rdb_def
  WaitAndCollectErrors_def ParseUint_def digitVal_def digitChar_def FormatUint.simps
  txDataKey_def logDataKey_def lastRecordedBlockKey_def keyPrefix_def New_rdb_def
  quietNode_def flakyNode_def noFaults_def emptyRedis_def checkpointOnly_def txsWrapper_def logsWrapper_def
  getAndSaveTxs_def getAndSaveLogsTxs_def resume_def redisNil_def Let_def upt_rec

section \<open>The checkpoint getter\<close>

text \<open>
  C7, as the code has it. \<open>GetLastRecordedBlock\<close> answers a missing key with \<open>0\<close>, so absent
  and a stored \<open>0\<close> read the same and both start a first run. Every checkpoint \<open>c\<close> written by
  \<open>SetLastRecordedBlock\<close> reads back as \<open>c\<close>; the run is a first run exactly when the value
  read is \<open>0\<close>, and it resumes from \<open>c\<close> itself when \<open>c\<close> is not \<open>0\<close>.
\<close>

theorem checkpoint_getter_zero_sentinel:
  "(GetErr rf (lastRecordedBlockKey rdw) = None \<longrightarrow>
      (strings db (lastRecordedBlockKey rdw) = None \<longrightarrow> GetLastRecordedBlock rdw rf db = Inr 0) \<and>
      (SetErr rf' (lastRecordedBlockKey rdw) = None \<longrightarrow>
         GetLastRecordedBlock rdw rf (snd (SetLastRecordedBlock rdw rf' c db)) = Inr c)) \<and>
   (fst (resume fromBlock c) \<longleftrightarrow> c = 0) \<and>
   snd (resume fromBlock c) = (if c = 0 then fromBlock else c)"
  using Get_absent [of db rdw rf] Get_after_Set [of rf' rdw rf c db]
  by (simp add: resume_def)

theorem checkpoint_getter_zero_sentinel_witness:
  "GetErr noFaults (lastRecordedBlockKey txsWrapper) = None \<and>
   strings emptyRedis (lastRecordedBlockKey txsWrapper) = None \<and>
   GetLastRecordedBlock txsWrapper noFaults emptyRedis = Inr 0 \<and>
   SetErr noFaults (lastRecordedBlockKey txsWrapper) = None \<and>
   GetLastRecordedBlock txsWrapper noFaults (snd (SetLastRecordedBlock txsWrapper noFaults 7 emptyRedis)) = Inr 7 \<and>
   \<not> fst (resume 5 7) \<and> snd (resume 5 7) = 7"
proof -
  have h: "GetErr noFaults (lastRecordedBlockKey txsWrapper) = None"
    "strings emptyRedis (lastRecordedBlockKey txsWrapper) = None"
    "SetErr noFaults (lastRecordedBlockKey txsWrapper) = None"
    by (simp_all add: noFaults_def emptyRedis_def)
  show ?thesis
    using h checkpoint_getter_zero_sentinel [of noFaults txsWrapper emptyRedis noFaults 7 5]
    by simp
qed

text \<open>
  The claim as written fails for a stored \<open>0\<close>: the getter gives the same answer as for an
  empty store, and the run that follows starts at \<open>fromBlock = 5\<close>, not at block \<open>1\<close>.
\<close>

theorem stored_zero_reads_as_absent:
  "strings (snd (SetLastRecordedBlock logsWrapper noFaults 0 emptyRedis)) (lastRecordedBlockKey logsWrapper) = Some ''0'' \<and>
   strings (checkpointOnly logsWrapper ''0'') (lastRecordedBlockKey logsWrapper) = Some ''0'' \<and>
   strings emptyRedis (lastRecordedBlockKey logsWrapper) = None \<and>
   GetLastRecordedBlock logsWrapper noFaults (checkpointOnly logsWrapper ''0'') =
     GetLastRecordedBlock logsWrapper noFaults emptyRedis \<and>
   resume 5 0 = (True, 5) \<and>
   windowsOf (fst (getAndSaveLogsTxs (Suc 0) logsWrapper (\<lambda>i. quietNode 9) (checkpointOnly logsWrapper ''0'') [] 5 9 2 False)) =
     [(5, 7)]"
  by (simp add: run_defs)

section \<open>Resuming from a checkpoint\<close>

text \<open>
  C1, as the code has it. With a checkpoint \<open>c\<close> other than \<open>0\<close> in the store, the first
  window of a run has lower bound \<open>c + 1\<close> in both modes, and such a window is computed as
  soon as the loop is entered and the node reports a height. With no checkpoint, or with a
  stored \<open>0\<close> (which reads like no checkpoint), the first window has lower bound
  \<open>fromBlock\<close>. After resuming from \<open>c\<close> (not \<open>0\<close>, not the largest \<open>uint64\<close>) transaction mode
  never requests a block \<open>\<le> c\<close> during the whole run, as long as every height the node
  reports is below \<open>2 ^ 63\<close>: up to there \<open>int64(n)\<close> is \<open>n\<close>, so the request for \<open>n\<close> asks for
  block \<open>n\<close>, and the loop that spawns the fetch tasks ends (at the height \<open>2 ^ 64 - 1\<close> it
  wraps around to block \<open>0\<close>). Log mode never queries a range whose lower bound is \<open>\<le> c\<close>, as
  long as every reported height lies between \<open>c\<close> and a bound \<open>M\<close> with \<open>M + 1 < 2 ^ 63\<close> and
  \<open>M + 1 + batchSize < 2 ^ 64\<close>.
\<close>

theorem resume_correctness:
  assumes "GetErr (faults (world 0)) (lastRecordedBlockKey rdw) = None"
  shows
    "(strings db (lastRecordedBlockKey rdw) = Some (FormatUint (unat c)) \<and> c \<noteq> 0 \<longrightarrow>
        (\<forall>w ws. windowsOf (fst (getAndSaveTxs fuel rdw world db fromBlock toBlock batchSize rolling)) = w # ws
            \<longrightarrow> fst w = c + 1) \<and>
        (\<forall>w ws. windowsOf (fst (getAndSaveLogsTxs fuel rdw world db addresses fromBlock toBlock batchSize rolling)) = w # ws
            \<longrightarrow> fst w = c + 1) \<and>
        (0 < fuel \<and> (rolling \<or> c < toBlock) \<and> clientBlockNumber (world 0) = Inr h \<longrightarrow>
           (\<exists>t ws. windowsOf (fst (getAndSaveTxs fuel rdw world db fromBlock toBlock batchSize rolling)) = (c + 1, t) # ws) \<and>
           (\<exists>t ws. windowsOf (fst (getAndSaveLogsTxs fuel rdw world db addresses fromBlock toBlock batchSize rolling)) =
               (c + 1, t) # ws)) \<and>
        (c \<noteq> - 1 \<and> (\<forall>i k. clientBlockNumber (world i) = Inr k \<longrightarrow> unat k < 2 ^ 63) \<longrightarrow>
           (\<forall>n \<in> set (fetchedBlocks (fst (getAndSaveTxs fuel rdw world db fromBlock toBlock batchSize rolling))). c < n)) \<and>
        ((\<forall>i k. clientBlockNumber (world i) = Inr k \<longrightarrow> c \<le> k \<and> k \<le> M) \<and> c \<le> M \<and>
            unat M + 1 < 2 ^ 63 \<and> unat M + 1 + unat batchSize < 2 ^ 64 \<longrightarrow>
           (\<forall>q \<in> set (logQueries (fst (getAndSaveLogsTxs fuel rdw world db addresses fromBlock toBlock batchSize rolling))).
               c < fst q))) \<and>
     (strings db (lastRecordedBlockKey rdw) = None \<or> strings db (lastRecordedBlockKey rdw) = Some ''0'' \<longrightarrow>
        (\<forall>w ws. windowsOf (fst (getAndSaveTxs fuel rdw world db fromBlock toBlock batchSize rolling)) = w # ws
            \<longrightarrow> fst w = fromBlock) \<and>
        (\<forall>w ws. windowsOf (fst (getAndSaveLogsTxs fuel rdw world db addresses fromBlock toBlock batchSize rolling)) = w # ws
            \<longrightarrow> fst w = fromBlock) \<and>
        (0 < fuel \<and> (rolling \<or> fromBlock < toBlock) \<and> clientBlockNumber (world 0) = Inr h \<longrightarrow>
           (\<exists>t ws. windowsOf (fst (getAndSaveTxs fuel rdw world db fromBlock toBlock batchSize rolling)) = (fromBlock, t) # ws) \<and>
           (\<exists>t ws. windowsOf (fst (getAndSaveLogsTxs fuel rdw world db addresses fromBlock toBlock batchSize rolling)) =
               (fromBlock, t) # ws)))"
proof -
  let ?key = "lastRecordedBlockKey rdw"
  let ?tx = "getAndSaveTxs fuel rdw world db fromBlock toBlock batchSize rolling"
  let ?lg = "getAndSaveLogsTxs fuel rdw world db addresses fromBlock toBlock batchSize rolling"
  have present: "(\<forall>w ws. windowsOf (fst ?tx) = w # ws \<longrightarrow> fst w = c + 1) \<and>
        (\<forall>w ws. windowsOf (fst ?lg) = w # ws \<longrightarrow> fst w = c + 1) \<and>
        (0 < fuel \<and> (rolling \<or> c < toBlock) \<and> clientBlockNumber (world 0) = Inr h \<longrightarrow>
           (\<exists>t ws. windowsOf (fst ?tx) = (c + 1, t) # ws) \<and> (\<exists>t ws. windowsOf (fst ?lg) = (c + 1, t) # ws)) \<and>
        (c \<noteq> - 1 \<and> (\<forall>i k. clientBlockNumber (world i) = Inr k \<longrightarrow> unat k < 2 ^ 63) \<longrightarrow>
           (\<forall>n \<in> set (fetchedBlocks (fst ?tx)). c < n)) \<and>
        ((\<forall>i k. clientBlockNumber (world i) = Inr k \<longrightarrow> c \<le> k \<and> k \<le> M) \<and> c \<le> M \<and>
            unat M + 1 < 2 ^ 63 \<and> unat M + 1 + unat batchSize < 2 ^ 64 \<longrightarrow>
           (\<forall>q \<in> set (logQueries (fst ?lg)). c < fst q))"
    if stored: "strings db ?key = Some (FormatUint (unat c))" and nz: "c \<noteq> 0"
  proof -
    have g: "GetLastRecordedBlock rdw (faults (world 0)) db = Inr c"
      using Get_stored [OF stored assms] .
    have tx: "?tx = txsLoop fuel rdw world toBlock batchSize rolling False 0 c db"
      using g nz by (simp add: getAndSaveTxs_def resume_def)
    have lg: "?lg = logsLoop fuel rdw world addresses toBlock batchSize rolling False 0 c db"
      using g nz by (simp add: getAndSaveLogsTxs_def resume_def)
    have a: "\<forall>w ws. windowsOf (fst ?tx) = w # ws \<longrightarrow> fst w = c + 1"
      using txsLoop_first_window [of fuel rdw world toBlock batchSize rolling False 0 c db]
      by (auto simp: tx thisFromBlock_def)
    have b: "\<forall>w ws. windowsOf (fst ?lg) = w # ws \<longrightarrow> fst w = c + 1"
      using logsLoop_first_window [of fuel rdw world addresses toBlock batchSize rolling False 0 c db]
      by (auto simp: lg thisFromBlock_def)
    have e: "(\<exists>t ws. windowsOf (fst ?tx) = (c + 1, t) # ws) \<and> (\<exists>t ws. windowsOf (fst ?lg) = (c + 1, t) # ws)"
      if "0 < fuel" "rolling \<or> c < toBlock" "clientBlockNumber (world 0) = Inr h"
      using that
        txsLoop_starts [where world = world and i = 0 and fuel = fuel and rolling = rolling and l = c
          and toBlock = toBlock and h = h and rdw = rdw and batchSize = batchSize and firstRun = False and db = db]
        logsLoop_starts [where world = world and i = 0 and fuel = fuel and rolling = rolling and l = c
          and toBlock = toBlock and h = h and rdw = rdw and batchSize = batchSize and firstRun = False and db = db
          and addresses = addresses]
      by (auto simp: tx lg thisFromBlock_def)
    have f: "\<forall>n \<in> set (fetchedBlocks (fst ?tx)). c < n"
      if "c \<noteq> - 1" "\<forall>i k. clientBlockNumber (world i) = Inr k \<longrightarrow> unat k < 2 ^ 63"
    proof -
      have "\<not> unat (- 1 :: u64) < 2 ^ 63"
        by (simp add: unsigned_minus_1_eq_mask mask_eq_exp_minus_1)
      then have "\<forall>i. clientBlockNumber (world i) \<noteq> Inr (- 1)" using that(2) by blast
      from txsLoop_never_refetches [OF this order_refl that(1), of fuel rdw toBlock batchSize rolling 0 db]
      show ?thesis by (simp add: tx)
    qed
    have q: "\<forall>q \<in> set (logQueries (fst ?lg)). c < fst q"
      if "\<forall>i k. clientBlockNumber (world i) = Inr k \<longrightarrow> c \<le> k \<and> k \<le> M" "c \<le> M"
        "unat M + 1 + unat batchSize < 2 ^ 64" "unat M + 1 < 2 ^ 63"
      using logsLoop_never_requeries [OF that(1) that(3) order_refl that(2), of fuel rdw addresses toBlock rolling 0 db]
      by (simp add: lg)
    show ?thesis using a b e f q by blast
  qed
  have absent: "(\<forall>w ws. windowsOf (fst ?tx) = w # ws \<longrightarrow> fst w = fromBlock) \<and>
        (\<forall>w ws. windowsOf (fst ?lg) = w # ws \<longrightarrow> fst w = fromBlock) \<and>
        (0 < fuel \<and> (rolling \<or> fromBlock < toBlock) \<and> clientBlockNumber (world 0) = Inr h \<longrightarrow>
           (\<exists>t ws. windowsOf (fst ?tx) = (fromBlock, t) # ws) \<and> (\<exists>t ws. windowsOf (fst ?lg) = (fromBlock, t) # ws))"
    if none: "strings db ?key = None \<or> strings db ?key = Some ''0''"
  proof -
    have z: "FormatUint (unat (0 :: u64)) = ''0''"
      by (simp add: FormatUint.simps digitChar_def)
    have g: "GetLastRecordedBlock rdw (faults (world 0)) db = Inr 0"
      using none Get_absent [of db rdw "faults (world 0)"] Get_stored [of db rdw 0 "faults (world 0)"] assms z
      by auto
    have tx: "?tx = txsLoop fuel rdw world toBlock batchSize rolling True 0 fromBlock db"
      using g by (simp add: getAndSaveTxs_def resume_def)
    have lg: "?lg = logsLoop fuel rdw world addresses toBlock batchSize rolling True 0 fromBlock db"
      using g by (simp add: getAndSaveLogsTxs_def resume_def)
    have a: "\<forall>w ws. windowsOf (fst ?tx) = w # ws \<longrightarrow> fst w = fromBlock"
      using txsLoop_first_window [of fuel rdw world toBlock batchSize rolling True 0 fromBlock db]
      by (auto simp: tx thisFromBlock_def)
    have b: "\<forall>w ws. windowsOf (fst ?lg) = w # ws \<longrightarrow> fst w = fromBlock"
      using logsLoop_first_window [of fuel rdw world addresses toBlock batchSize rolling True 0 fromBlock db]
      by (auto simp: lg thisFromBlock_def)
    have e: "(\<exists>t ws. windowsOf (fst ?tx) = (fromBlock, t) # ws) \<and> (\<exists>t ws. windowsOf (fst ?lg) = (fromBlock, t) # ws)"
      if "0 < fuel" "rolling \<or> fromBlock < toBlock" "clientBlockNumber (world 0) = Inr h"
      using that
        txsLoop_starts [where world = world and i = 0 and fuel = fuel and rolling = rolling and l = fromBlock
          and toBlock = toBlock and h = h and rdw = rdw and batchSize = batchSize and firstRun = True and db = db]
        logsLoop_starts [where world = world and i = 0 and fuel = fuel and rolling = rolling and l = fromBlock
          and toBlock = toBlock and h = h and rdw = rdw and batchSize = batchSize and firstRun = True and db = db
          and addresses = addresses]
      by (auto simp: tx lg thisFromBlock_def)
    show ?thesis using a b e by blast
  qed
  show ?thesis using present absent by blast
qed

theorem resume_correctness_witness:
  "GetErr (faults (quietNode 110)) (lastRecordedBlockKey txsWrapper) = None \<and>
   strings (checkpointOnly txsWrapper ''100'') (lastRecordedBlockKey txsWrapper) = Some (FormatUint (unat (100 :: u64))) \<and>
   (100 :: u64) \<noteq> 0 \<and> (100 :: u64) \<noteq> - 1 \<and> (100 :: u64) < 105 \<and>
   clientBlockNumber (quietNode 110) = Inr 110 \<and> unat (110 :: u64) < 2 ^ 63 \<and>
   unat (110 :: u64) + 1 < 2 ^ 63 \<and> unat (110 :: u64) + 1 + unat (2 :: u64) < 2 ^ 64 \<and>
   (\<exists>t ws. windowsOf (fst (getAndSaveTxs (Suc (Suc 0)) txsWrapper (\<lambda>i. quietNode 110)
       (checkpointOnly txsWrapper ''100'') 5 105 2 False)) = (101, t) # ws) \<and>
   (\<exists>t ws. windowsOf (fst (getAndSaveLogsTxs (Suc (Suc 0)) txsWrapper (\<lambda>i. quietNode 110)
       (checkpointOnly txsWrapper ''100'') [] 5 105 2 False)) = (101, t) # ws) \<and>
   list_all (\<lambda>n. 100 < n) (fetchedBlocks (fst (getAndSaveTxs (Suc (Suc 0)) txsWrapper (\<lambda>i. quietNode 110)
       (checkpointOnly txsWrapper ''100'') 5 105 2 False))) \<and>
   list_all (\<lambda>q. 100 < fst q) (logQueries (fst (getAndSaveLogsTxs (Suc (Suc 0)) txsWrapper (\<lambda>i. quietNode 110)
       (checkpointOnly txsWrapper ''100'') [] 5 105 2 False)))"
proof -
  have g: "GetErr (faults (quietNode 110)) (lastRecordedBlockKey txsWrapper) = None"
    by (simp add: quietNode_def noFaults_def)
  have s: "strings (checkpointOnly txsWrapper ''100'') (lastRecordedBlockKey txsWrapper) = Some (FormatUint (unat (100 :: u64)))"
    by (simp add: checkpointOnly_def FormatUint.simps digitChar_def)
  have n: "(100 :: u64) \<noteq> 0" "(100 :: u64) \<noteq> - 1" "(100 :: u64) < 105" "(100 :: u64) \<le> 110"
    "unat (110 :: u64) + 1 + unat (2 :: u64) < 2 ^ 64" "unat (110 :: u64) < 2 ^ 63" "unat (110 :: u64) + 1 < 2 ^ 63"
    by simp_all
  have b: "clientBlockNumber (quietNode 110) = Inr 110"
    "\<forall>i k. clientBlockNumber ((\<lambda>i. quietNode 110) i) = Inr k \<longrightarrow> unat k < 2 ^ 63"
    by (auto simp: quietNode_def)
  have hs: "\<forall>i k. clientBlockNumber ((\<lambda>i. quietNode 110) i) = Inr k \<longrightarrow> (100 :: u64) \<le> k \<and> k \<le> 110"
    by (simp add: quietNode_def)
  show ?thesis
    using g s n b hs
      resume_correctness [of "\<lambda>i. quietNode 110" txsWrapper "checkpointOnly txsWrapper ''100''" 100
        "Suc (Suc 0)" 5 105 2 False "[]" 110 110]
    by (simp add: list_all_iff)
qed

text \<open>
  The claim as written fails for the stored checkpoint \<open>0\<close>: the first window starts at
  \<open>fromBlock = 0\<close>, not at \<open>1\<close>, and block \<open>0\<close> is requested again.
\<close>

theorem resume_from_stored_zero:
  "strings (checkpointOnly txsWrapper ''0'') (lastRecordedBlockKey txsWrapper) = Some (FormatUint (unat (0 :: u64))) \<and>
   windowsOf (fst (getAndSaveTxs (Suc 0) txsWrapper (\<lambda>i. quietNode 3) (checkpointOnly txsWrapper ''0'') 0 3 1 False)) =
     [(0, 1)] \<and>
   fetchedBlocks (fst (getAndSaveTxs (Suc 0) txsWrapper (\<lambda>i. quietNode 3) (checkpointOnly txsWrapper ''0'') 0 3 1 False)) =
     [0, 1]"
  by (simp add: run_defs)

text \<open>
  Why the height must stay below the largest \<open>uint64\<close>: resumed from the checkpoint
  \<open>2 ^ 64 - 6\<close> with \<open>batchSize = 4\<close> and the node at height \<open>2 ^ 64 - 1\<close>, the window is
  \<open>[2 ^ 64 - 5, 2 ^ 64 - 1]\<close>, the spawning loop does not end and goes on with the blocks
  \<open>0, 1, 2\<close>, all below the checkpoint.
\<close>

lemma resumed_run_wraps_at_largest_height:
  "GetLastRecordedBlock txsWrapper noFaults (checkpointOnly txsWrapper ''18446744073709551610'') = Inr (- 6) \<and>
   windowsOf (fst (getAndSaveTxs (Suc 0) txsWrapper (\<lambda>i. (quietNode (- 1))\<lparr>spawnedBeyond := 2\<rparr>)
       (checkpointOnly txsWrapper ''18446744073709551610'') 5 (- 1) 4 False)) = [(- 5, - 1)] \<and>
   fetchedBlocks (fst (getAndSaveTxs (Suc 0) txsWrapper (\<lambda>i. (quietNode (- 1))\<lparr>spawnedBeyond := 2\<rparr>)
       (checkpointOnly txsWrapper ''18446744073709551610'') 5 (- 1) 4 False)) =
     [- 5, - 4, - 3, - 2, - 1, 0, 1, 2] \<and>
   snd (snd (getAndSaveTxs (Suc 0) txsWrapper (\<lambda>i. (quietNode (- 1))\<lparr>spawnedBeyond := 2\<rparr>)
       (checkpointOnly txsWrapper ''18446744073709551610'') 5 (- 1) 4 False)) = Some (NoReturn SpawnLoopOverflow)"
  by (simp add: run_defs runawayNumbers_def)

subsection \<open>A completed transaction-mode iteration\<close>

lemma joinFetches_Some: "joinFetches rs = Some bs \<Longrightarrow> rs = map Inr bs"
  by (induction rs arbitrary: bs rule: joinFetches.induct) (auto split: option.splits)

lemma keys_fold_update:
  "fst ` set (fold (\<lambda>block m. AList.update (NumberU64 block) (txDatas block) m) bs acc) =
     NumberU64 ` set bs \<union> fst ` set acc"
  by (induction bs arbitrary: acc) (auto simp: AList.dom_update)

lemma keys_collectBlocks: "fst ` set (collectBlocks bs) = NumberU64 ` set bs"
  by (simp add: collectBlocks_def keys_fold_update)

lemma numbers_of_fetched:
  assumes "\<forall>n b. fetch n = Inr b \<longrightarrow> NumberU64 b = n" "map fetch ns = map Inr bs"
  shows "NumberU64 ` set bs = set ns"
  using assms(2)
proof (induction ns arbitrary: bs)
  case Nil
  then show ?case by simp
next
  case (Cons n ns)
  then obtain b bs' where bs: "bs = b # bs'" "fetch n = Inr b" "map fetch ns = map Inr bs'"
    by (cases bs) auto
  then show ?case using Cons.IH [of bs'] assms(1) by auto
qed

lemma txsIteration_Next_events:
  assumes "txsIteration rdw en toBlock batchSize rolling firstRun l db = (ev, db', Next t)"
  shows "fetchedBlocks ev = blockNumbers (thisFromBlock firstRun l) t \<and>
         (\<exists>bs. joinFetches (map (clientBlockByNumber en) (blockNumbers (thisFromBlock firstRun l) t)) = Some bs \<and>
               CallSaveTxs (collectBlocks bs) \<in> set ev \<and>
               fst (SaveTxs rdw (faults en) (collectBlocks bs) db) = None)"
  using assms
  by (auto simp: txsIteration_def Let_def observers split: sum.splits option.splits prod.splits if_splits)

lemma txsIteration_Next_saves:
  assumes "txsIteration rdw en toBlock batchSize rolling firstRun l db = (ev, db', Next t)"
    and "\<forall>n b. clientBlockByNumber en n = Inr b \<longrightarrow> NumberU64 b = n"
    and "n \<in> set (blockNumbers (thisFromBlock firstRun l) t)"
  shows "\<exists>d. CallSaveTxs d \<in> set ev \<and> n \<in> fst ` set d \<and> fst (SaveTxs rdw (faults en) d db) = None"
proof -
  obtain bs where bs: "joinFetches (map (clientBlockByNumber en) (blockNumbers (thisFromBlock firstRun l) t)) = Some bs"
    and sv: "CallSaveTxs (collectBlocks bs) \<in> set ev" "fst (SaveTxs rdw (faults en) (collectBlocks bs) db) = None"
    using txsIteration_Next_events [OF assms(1)] by blast
  have "NumberU64 ` set bs = set (blockNumbers (thisFromBlock firstRun l) t)"
    using numbers_of_fetched [OF assms(2) joinFetches_Some [OF bs]] .
  then have "n \<in> fst ` set (collectBlocks bs)"
    using assms(3) by (simp add: keys_collectBlocks)
  then show ?thesis using sv by blast
qed

subsection \<open>What a successful save leaves in the store\<close>

lemma WaitAndCollectErrors_None: "WaitAndCollectErrors errs = None \<longleftrightarrow> errs = []"
  by (cases errs) (simp_all add: WaitAndCollectErrors_def)

lemma saveFields_written:
  assumes "distinct (map fst d)" "fst (saveFields rf key d db) = []"
  shows "hashes (snd (saveFields rf key d db)) key (FormatUint (unat n)) =
           (case map_of d n of Some ds \<Rightarrow> Some ds | None \<Rightarrow> hashes db key (FormatUint (unat n)))"
  using assms
proof (induction d arbitrary: db)
  case Nil
  then show ?case by simp
next
  case (Cons a d)
  obtain m ds where a: "a = (m, ds)" by (cases a)
  show ?case
  proof (cases "HSetErr rf key (FormatUint (unat m))")
    case (Some e)
    then show ?thesis using Cons.prems(2) by (simp add: a HSet_def split: prod.splits)
  next
    case None
    let ?db1 = "db\<lparr>hashes := (hashes db)(key := (hashes db key)(FormatUint (unat m) \<mapsto> ds))\<rparr>"
    have step: "saveFields rf key (a # d) db = saveFields rf key d ?db1"
      using None by (simp add: a HSet_def)
    have ok: "fst (saveFields rf key d ?db1) = []" using Cons.prems(2) step by simp
    have dd: "distinct (map fst d)" "m \<notin> fst ` set d" using Cons.prems(1) by (auto simp: a)
    have ih: "hashes (snd (saveFields rf key d ?db1)) key (FormatUint (unat n)) =
           (case map_of d n of Some ds \<Rightarrow> Some ds | None \<Rightarrow> hashes ?db1 key (FormatUint (unat n)))"
      using Cons.IH [OF dd(1) ok] .
    show ?thesis
    proof (cases "n = m")
      case True
      have "map_of d m = None" using dd(2) by (simp add: map_of_eq_None_iff)
      then show ?thesis unfolding step using ih True by (simp add: a)
    next
      case False
      then have "FormatUint (unat n) \<noteq> FormatUint (unat m)" using FormatUint_inj by blast
      then show ?thesis unfolding step using ih False by (simp add: a split: option.splits)
    qed
  qed
qed

lemma saveFields_other_key:
  "key' \<noteq> key \<Longrightarrow> hashes (snd (saveFields rf key d db)) key' = hashes db key'"
proof (induction d arbitrary: db)
  case Nil
  then show ?case by simp
next
  case (Cons a d)
  obtain m ds where a: "a = (m, ds)" by (cases a)
  show ?case
  proof (cases "HSetErr rf key (FormatUint (unat m))")
    case None
    let ?db1 = "db\<lparr>hashes := (hashes db)(key := (hashes db key)(FormatUint (unat m) \<mapsto> ds))\<rparr>"
    have "saveFields rf key (a # d) db = saveFields rf key d ?db1"
      using None by (simp add: a HSet_def)
    then show ?thesis using Cons.IH [OF Cons.prems, of ?db1] Cons.prems by simp
  next
    case (Some e)
    obtain errs db2 where r: "saveFields rf key d db = (errs, db2)" by (cases "saveFields rf key d db")
    have "snd (saveFields rf key (a # d) db) = db2"
      using Some r by (simp add: a HSet_def)
    then show ?thesis using Cons.IH [OF Cons.prems, of db] r by simp
  qed
qed

lemma hashes_SetLastRecordedBlock: "hashes (snd (SetLastRecordedBlock rdw rf b db)) = hashes db"
  by (simp add: SetLastRecordedBlock_def Set_rdb_def split: option.splits)

lemma distinct_collectBlocks: "distinct (map fst (collectBlocks bs))"
proof -
  have "distinct (map fst acc) \<Longrightarrow>
      distinct (map fst (fold (\<lambda>block m. AList.update (NumberU64 block) (txDatas block) m) bs acc))" for acc
    by (induction bs arbitrary: acc) (simp_all add: AList.distinct_update)
  then show ?thesis by (simp add: collectBlocks_def)
qed

lemma map_of_fold_update:
  assumes "distinct (map NumberU64 bs)" "b \<in> set bs"
  shows "map_of (fold (\<lambda>block m. AList.update (NumberU64 block) (txDatas block) m) bs acc) (NumberU64 b) = Some (txDatas b)"
  using assms
proof (induction bs arbitrary: acc)
  case Nil
  then show ?case by simp
next
  case (Cons x bs)
  show ?case
  proof (cases "b \<in> set bs")
    case True
    then show ?thesis using Cons by simp
  next
    case False
    then have bx: "b = x" using Cons.prems(2) by simp
    have keep: "NumberU64 x \<notin> NumberU64 ` set bs \<Longrightarrow>
        map_of (fold (\<lambda>block m. AList.update (NumberU64 block) (txDatas block) m) bs acc') (NumberU64 x) =
          map_of acc' (NumberU64 x)" for acc'
      by (induction bs arbitrary: acc') (simp_all add: AList.update_conv')
    show ?thesis using Cons.prems(1) keep bx by (simp add: AList.update_conv')
  qed
qed

lemma SaveTxs_written:
  assumes "fst (SaveTxs rdw rf (collectBlocks bs) db) = None" "distinct (map NumberU64 bs)" "b \<in> set bs"
  shows "hashes (snd (SaveTxs rdw rf (collectBlocks bs) db)) (txDataKey rdw) (FormatUint (unat (NumberU64 b))) =
           Some (txDatas b)"
proof -
  have e: "fst (saveFields rf (txDataKey rdw) (collectBlocks bs) db) = []"
    using assms(1)
    by (cases "saveFields rf (txDataKey rdw) (collectBlocks bs) db") (simp add: SaveTxs_def WaitAndCollectErrors_None)
  have "map_of (collectBlocks bs) (NumberU64 b) = Some (txDatas b)"
    using map_of_fold_update [OF assms(2,3)] by (simp add: collectBlocks_def)
  then show ?thesis
    using saveFields_written [OF distinct_collectBlocks e, of "NumberU64 b"]
    by (cases "saveFields rf (txDataKey rdw) (collectBlocks bs) db") (simp add: SaveTxs_def)
qed

lemma distinct_blockNumbers: "distinct (blockNumbers from to)"
proof (cases "to < from")
  case True
  then show ?thesis by (simp add: blockNumbers_def)
next
  case False
  have inv: "unat (word_of_nat x :: u64) = x" if "x \<in> set [unat from ..< Suc (unat to)]" for x
  proof -
    have "x \<le> unat to" using that by auto
    then show ?thesis by (rule le_unat_uoi)
  qed
  have "inj_on (word_of_nat :: nat \<Rightarrow> u64) (set [unat from ..< Suc (unat to)])"
    by (rule inj_on_inverseI [where g = unat]) (rule inv)
  moreover have "distinct [unat from ..< Suc (unat to)]" by (rule distinct_upt)
  ultimately have "distinct (map (word_of_nat :: nat \<Rightarrow> u64) [unat from ..< Suc (unat to)])"
    by (simp only: distinct_map simp_thms)
  then show ?thesis using False by (simp only: blockNumbers_def if_False)
qed

lemma txsIteration_window_saved:
  assumes it: "txsIteration rdw en toBlock batchSize rolling firstRun l db = (ev, db', out)"
    and cp: "CallSetLastRecordedBlock t \<in> set ev"
    and wb: "\<forall>n b. clientBlockByNumber en n = Inr b \<longrightarrow> NumberU64 b = n"
    and n: "n \<in> set (blockNumbers (thisFromBlock firstRun l) t)"
  shows "\<exists>b. clientBlockByNumber en n = Inr b \<and>
             hashes db' (txDataKey rdw) (FormatUint (unat n)) = Some (txDatas b)"
proof -
  let ?from = "thisFromBlock firstRun l"
  obtain bs db1 where bs: "joinFetches (map (clientBlockByNumber en) (blockNumbers ?from t)) = Some bs"
    and sv: "SaveTxs rdw (faults en) (collectBlocks bs) db = (None, db1)"
    and d': "hashes db' = hashes db1"
    using it cp hashes_SetLastRecordedBlock [of rdw "faults en" t]
    by (auto simp: txsIteration_def Let_def split: sum.splits option.splits prod.splits if_splits)
      (metis snd_conv)+
  have m: "map (clientBlockByNumber en) (blockNumbers ?from t) = map Inr bs"
    using joinFetches_Some [OF bs] .
  have nums: "map NumberU64 bs = blockNumbers ?from t"
  proof -
    have "\<And>ns. map (clientBlockByNumber en) ns = map Inr bs \<Longrightarrow> map NumberU64 bs = ns"
      using wb
    proof (induction bs)
      case Nil
      then show ?case by simp
    next
      case (Cons b bs)
      then obtain k ks where ns: "ns = k # ks" "clientBlockByNumber en k = Inr b" "map (clientBlockByNumber en) ks = map Inr bs"
        by (cases ns) auto
      then show ?case using Cons.IH [of ks] Cons.prems(2) by auto
    qed
    then show ?thesis using m by blast
  qed
  have dist: "distinct (map NumberU64 bs)" using nums distinct_blockNumbers by simp
  obtain b where b: "b \<in> set bs" "NumberU64 b = n"
    using n nums by (metis (no_types, lifting) imageE list.set_map)
  have fb: "clientBlockByNumber en n = Inr b"
  proof -
    have "Inr b \<in> set (map (clientBlockByNumber en) (blockNumbers ?from t))" using b(1) m by simp
    then obtain k where "clientBlockByNumber en k = Inr b" by auto
    then show ?thesis using wb b(2) by auto
  qed
  have "hashes db1 (txDataKey rdw) (FormatUint (unat (NumberU64 b))) = Some (txDatas b)"
    using SaveTxs_written [of rdw "faults en" bs db, OF _ dist b(1)] sv by simp
  then show ?thesis using fb b(2) d' by auto
qed

lemma logDataKey_inj: "logDataKey rdw a = logDataKey rdw a' \<Longrightarrow> a = a'"
  by (simp add: logDataKey_def)

lemma saveAddrs_other_key:
  "key \<notin> logDataKey rdw ` fst ` set dd \<Longrightarrow> hashes (snd (saveAddrs rdw rf dd db)) key = hashes db key"
proof (induction dd arbitrary: db)
  case Nil
  then show ?case by simp
next
  case (Cons x dd)
  obtain a cd where x: "x = (a, cd)" by (cases x)
  obtain errs db1 where r1: "saveFields rf (logDataKey rdw a) cd db = (errs, db1)"
    by (cases "saveFields rf (logDataKey rdw a) cd db")
  obtain errs' db2 where r2: "saveAddrs rdw rf dd db1 = (errs', db2)"
    by (cases "saveAddrs rdw rf dd db1")
  have k: "key \<noteq> logDataKey rdw a" "key \<notin> logDataKey rdw ` fst ` set dd"
    using Cons.prems by (auto simp: x)
  have "hashes db1 key = hashes db key"
    using saveFields_other_key [OF k(1), of rf cd db] r1 by simp
  moreover have "hashes db2 key = hashes db1 key"
    using Cons.IH [OF k(2), of db1] r2 by simp
  ultimately show ?case by (simp add: x r1 r2)
qed

lemma saveAddrs_written:
  assumes "distinct (map fst dd)" "\<forall>p \<in> set dd. distinct (map fst (snd p))"
    and "fst (saveAddrs rdw rf dd db) = []" "map_of dd a = Some cd" "map_of cd n = Some ds"
  shows "hashes (snd (saveAddrs rdw rf dd db)) (logDataKey rdw a) (FormatUint (unat n)) = Some ds"
  using assms
proof (induction dd arbitrary: db)
  case Nil
  then show ?case by simp
next
  case (Cons x dd)
  obtain a' cd' where x: "x = (a', cd')" by (cases x)
  obtain errs db1 where r1: "saveFields rf (logDataKey rdw a') cd' db = (errs, db1)"
    by (cases "saveFields rf (logDataKey rdw a') cd' db")
  obtain errs' db2 where r2: "saveAddrs rdw rf dd db1 = (errs', db2)"
    by (cases "saveAddrs rdw rf dd db1")
  have e: "errs = []" "errs' = []" using Cons.prems(3) by (simp_all add: x r1 r2)
  have res: "snd (saveAddrs rdw rf (x # dd) db) = db2" by (simp add: x r1 r2)
  show ?case
  proof (cases "a = a'")
    case True
    then have cd: "cd = cd'" using Cons.prems(4) by (simp add: x)
    have d1: "distinct (map fst cd')" using Cons.prems(2) by (simp add: x)
    have "hashes db1 (logDataKey rdw a') (FormatUint (unat n)) = Some ds"
      using saveFields_written [OF d1, of rf "logDataKey rdw a'" db n] r1 e(1) Cons.prems(5) cd by simp
    moreover have "logDataKey rdw a' \<notin> logDataKey rdw ` fst ` set dd"
    proof
      assume "logDataKey rdw a' \<in> logDataKey rdw ` fst ` set dd"
      then obtain b where "b \<in> fst ` set dd" "logDataKey rdw a' = logDataKey rdw b" by blast
      then have "a' \<in> fst ` set dd" using logDataKey_inj [of rdw a' b] by simp
      then show False using Cons.prems(1) by (simp add: x)
    qed
    then have "hashes db2 (logDataKey rdw a') = hashes db1 (logDataKey rdw a')"
      using saveAddrs_other_key [of "logDataKey rdw a'" rdw dd rf db1] r2 by simp
    ultimately show ?thesis using True res by simp
  next
    case False
    then have m: "map_of dd a = Some cd" using Cons.prems(4) by (simp add: x)
    have "hashes (snd (saveAddrs rdw rf dd db1)) (logDataKey rdw a) (FormatUint (unat n)) = Some ds"
      using Cons.IH [of db1] Cons.prems(1,2,5) m r2 e(2) by (simp add: x)
    then show ?thesis using res r2 by simp
  qed
qed

lemma inner_distinct_addLog:
  assumes "\<forall>p \<in> set acc. distinct (map fst (snd p))"
  shows "\<forall>p \<in> set (addLog log acc). distinct (map fst (snd p))"
proof
  fix p assume p: "p \<in> set (addLog log acc)"
  let ?addr = "ToLower (LogAddress log)"
  let ?cd = "case map_of acc ?addr of None \<Rightarrow> [] | Some cd \<Rightarrow> cd"
  let ?bd = "case map_of ?cd (LogBlockNumber log) of None \<Rightarrow> [] | Some bd \<Rightarrow> bd"
  let ?new = "AList.update (LogBlockNumber log) (?bd @ [logData log]) ?cd"
  have old: "distinct (map fst ?cd)"
  proof (cases "map_of acc ?addr")
    case None
    then show ?thesis by simp
  next
    case (Some cd)
    then have "(?addr, cd) \<in> set acc" by (rule map_of_SomeD)
    then have "distinct (map fst cd)" using assms by force
    then show ?thesis using Some by simp
  qed
  have new: "distinct (map fst ?new)"
    using old by (rule AList.distinct_update)
  have "set (AList.update k v al) \<subseteq> insert (k, v) (set al)" for k :: string and v :: EthDatasByBlockNumber and al
    by (induction al) auto
  then have "p = (?addr, ?new) \<or> p \<in> set acc"
    using p by (auto simp: addLog_def Let_def)
  then show "distinct (map fst (snd p))" using new assms by auto
qed

lemma inner_distinct_groupLogs: "\<forall>p \<in> set (groupLogs logs). distinct (map fst (snd p))"
proof -
  have "\<forall>p \<in> set acc. distinct (map fst (snd p)) \<Longrightarrow> \<forall>p \<in> set (fold addLog logs acc). distinct (map fst (snd p))" for acc
  proof (induction logs arbitrary: acc)
    case Nil
    then show ?case by simp
  next
    case (Cons x logs)
    have "\<forall>p \<in> set (addLog x acc). distinct (map fst (snd p))"
      using Cons.prems by (rule inner_distinct_addLog)
    then show ?case using Cons.IH [of "addLog x acc"] by simp
  qed
  from this [of "[]"] show ?thesis by (simp add: groupLogs_def)
qed

lemma bucket_Some:
  assumes "bucket dd a n \<noteq> []"
  shows "\<exists>cd. map_of dd a = Some cd \<and> map_of cd n = Some (bucket dd a n)"
  using assms by (auto simp: bucket_def split: option.splits)

lemma logsIteration_logs_saved:
  assumes it: "logsIteration rdw en addresses toBlock batchSize rolling firstRun l db = (ev, db', out)"
    and cp: "CallSetLastRecordedBlock t \<in> set ev"
    and q: "clientFilterLogs en (thisFromBlock firstRun l) t addresses = Inr logs"
    and lg: "log \<in> set logs"
  shows "hashes db' (logDataKey rdw (ToLower (LogAddress log))) (FormatUint (unat (LogBlockNumber log))) =
           Some (map logData (filter (\<lambda>x. ToLower (LogAddress x) = ToLower (LogAddress log) \<and>
                                        LogBlockNumber x = LogBlockNumber log) logs))"
proof -
  let ?a = "ToLower (LogAddress log)"
  let ?n = "LogBlockNumber log"
  obtain db1 where sv: "SaveLogTxs rdw (faults en) (groupLogs logs) db = (None, db1)"
    and d': "hashes db' = hashes db1"
    using it cp q hashes_SetLastRecordedBlock [of rdw "faults en" t]
    by (auto simp: logsIteration_def Let_def split: sum.splits option.splits prod.splits if_splits)
      (metis snd_conv)+
  have b: "bucket (groupLogs logs) ?a ?n = map logData (filter (\<lambda>x. ToLower (LogAddress x) = ?a \<and> LogBlockNumber x = ?n) logs)"
    using bucket_fold_addLog [of logs "[]" ?a ?n] by (simp add: groupLogs_def bucket_def)
  have "log \<in> set (filter (\<lambda>x. ToLower (LogAddress x) = ?a \<and> LogBlockNumber x = ?n) logs)"
    using lg by simp
  then have "filter (\<lambda>x. ToLower (LogAddress x) = ?a \<and> LogBlockNumber x = ?n) logs \<noteq> []"
    by (metis empty_iff empty_set)
  then have ne: "bucket (groupLogs logs) ?a ?n \<noteq> []" using b by simp
  obtain cd where cd: "map_of (groupLogs logs) ?a = Some cd" "map_of cd ?n = Some (bucket (groupLogs logs) ?a ?n)"
    using bucket_Some [OF ne] by blast
  have e: "fst (saveAddrs rdw (faults en) (groupLogs logs) db) = []" "snd (saveAddrs rdw (faults en) (groupLogs logs) db) = db1"
    using sv by (cases "saveAddrs rdw (faults en) (groupLogs logs) db"; simp add: SaveLogTxs_def WaitAndCollectErrors_None)+
  have dist: "distinct (map fst (groupLogs logs))"
    using distinct_fold_addLog [of "[]" logs] by (simp add: groupLogs_def)
  have "hashes db1 (logDataKey rdw ?a) (FormatUint (unat ?n)) = Some (bucket (groupLogs logs) ?a ?n)"
    using saveAddrs_written [OF dist inner_distinct_groupLogs e(1) cd] e(2) by simp
  then show ?thesis using b d' by simp
qed

lemma txsIteration_Next_checkpoint:
  "txsIteration rdw en toBlock batchSize rolling firstRun l db = (ev, db', Next t) \<Longrightarrow>
     CallSetLastRecordedBlock t \<in> set ev"
  by (auto simp: txsIteration_def Let_def split: sum.splits option.splits prod.splits if_splits)

section \<open>First run\<close>

text \<open>
  C9, as the code has it. With no checkpoint in the store the run is a first run: the loop is
  entered with \<open>firstRun\<close> set and keeps it set, so in the whole run every window starts at
  \<open>lastRecordedBlock\<close>, the upper bound of the window before it (the first one at
  \<open>fromBlock\<close>), not one block later. The boundary block is fetched twice only when both
  windows are non-empty and both iterations complete: for two consecutive completed
  iterations with windows \<open>[l0, t1]\<close> and \<open>[t1, t2]\<close>, \<open>l0 \<le> t1 \<le> t2\<close>, the boundary block
  \<open>t1\<close> is requested by both and, when the node numbers the blocks it returns as asked, it is
  in the records both iterations save without error and its records are in the store after
  each of them; in log mode the two queries are \<open>(l0, t1)\<close> and \<open>(t1, t2)\<close>. The block numbers
  are taken below \<open>2 ^ 63\<close>, where \<open>int64(n)\<close> is \<open>n\<close> and the request names the block the loop
  computed.
\<close>

theorem first_run_window_overlap:
  "(GetErr (faults (world 0)) (lastRecordedBlockKey rdw) = None \<and> strings db (lastRecordedBlockKey rdw) = None \<longrightarrow>
      getAndSaveTxs fuel rdw world db fromBlock toBlock batchSize rolling =
        txsLoop fuel rdw world toBlock batchSize rolling True 0 fromBlock db \<and>
      getAndSaveLogsTxs fuel rdw world db addresses fromBlock toBlock batchSize rolling =
        logsLoop fuel rdw world addresses toBlock batchSize rolling True 0 fromBlock db \<and>
      chained fromBlock (windowsOf (fst (getAndSaveTxs fuel rdw world db fromBlock toBlock batchSize rolling))) \<and>
      chained fromBlock (windowsOf (fst (getAndSaveLogsTxs fuel rdw world db addresses fromBlock toBlock batchSize rolling)))) \<and>
   (txsIteration rdw en1 toBlock batchSize rolling True l0 db0 = (ev1, db1, Next t1) \<and>
    txsIteration rdw en2 toBlock batchSize rolling True t1 db1 = (ev2, db2, Next t2) \<and> l0 \<le> t1 \<and> t1 \<le> t2 \<and>
    unat t2 < 2 ^ 63 \<longrightarrow>
      windowsOf ev1 = [(l0, t1)] \<and> windowsOf ev2 = [(t1, t2)] \<and>
      t1 \<in> set (fetchedBlocks ev1) \<and> t1 \<in> set (fetchedBlocks ev2) \<and>
      ((\<forall>n b. clientBlockByNumber en1 n = Inr b \<longrightarrow> NumberU64 b = n) \<and>
       (\<forall>n b. clientBlockByNumber en2 n = Inr b \<longrightarrow> NumberU64 b = n) \<longrightarrow>
         (\<exists>d. CallSaveTxs d \<in> set ev1 \<and> t1 \<in> fst ` set d \<and> fst (SaveTxs rdw (faults en1) d db0) = None) \<and>
         (\<exists>d. CallSaveTxs d \<in> set ev2 \<and> t1 \<in> fst ` set d \<and> fst (SaveTxs rdw (faults en2) d db1) = None) \<and>
         (\<exists>b. clientBlockByNumber en1 t1 = Inr b \<and>
              hashes db1 (txDataKey rdw) (FormatUint (unat t1)) = Some (txDatas b)) \<and>
         (\<exists>b. clientBlockByNumber en2 t1 = Inr b \<and>
              hashes db2 (txDataKey rdw) (FormatUint (unat t1)) = Some (txDatas b)))) \<and>
   (logsIteration rdw en1 addresses toBlock batchSize rolling True l0 db0 = (lev1, ldb1, Next t1) \<and>
    logsIteration rdw en2 addresses toBlock batchSize rolling True t1 ldb1 = (lev2, ldb2, Next t2) \<and>
    unat l0 < 2 ^ 63 \<and> unat t1 < 2 ^ 63 \<and> unat t2 < 2 ^ 63 \<longrightarrow>
      logQueries lev1 = [(l0, t1)] \<and> logQueries lev2 = [(t1, t2)])"
proof -
  have run: "getAndSaveTxs fuel rdw world db fromBlock toBlock batchSize rolling =
        txsLoop fuel rdw world toBlock batchSize rolling True 0 fromBlock db \<and>
      getAndSaveLogsTxs fuel rdw world db addresses fromBlock toBlock batchSize rolling =
        logsLoop fuel rdw world addresses toBlock batchSize rolling True 0 fromBlock db \<and>
      chained fromBlock (windowsOf (fst (getAndSaveTxs fuel rdw world db fromBlock toBlock batchSize rolling))) \<and>
      chained fromBlock (windowsOf (fst (getAndSaveLogsTxs fuel rdw world db addresses fromBlock toBlock batchSize rolling)))"
    if "GetErr (faults (world 0)) (lastRecordedBlockKey rdw) = None" "strings db (lastRecordedBlockKey rdw) = None"
  proof -
    have g: "GetLastRecordedBlock rdw (faults (world 0)) db = Inr 0"
      using Get_absent [OF that(2) that(1)] .
    have tx: "getAndSaveTxs fuel rdw world db fromBlock toBlock batchSize rolling =
        txsLoop fuel rdw world toBlock batchSize rolling True 0 fromBlock db"
      using g by (simp add: getAndSaveTxs_def resume_def)
    have lg: "getAndSaveLogsTxs fuel rdw world db addresses fromBlock toBlock batchSize rolling =
        logsLoop fuel rdw world addresses toBlock batchSize rolling True 0 fromBlock db"
      using g by (simp add: getAndSaveLogsTxs_def resume_def)
    show ?thesis
      using tx lg txsLoop_chained [of fromBlock fuel rdw world toBlock batchSize rolling 0 db]
        logsLoop_chained [of fromBlock fuel rdw world addresses toBlock batchSize rolling 0 db]
      by simp
  qed
  have txs: "windowsOf ev1 = [(l0, t1)] \<and> windowsOf ev2 = [(t1, t2)] \<and>
      t1 \<in> set (fetchedBlocks ev1) \<and> t1 \<in> set (fetchedBlocks ev2) \<and>
      ((\<forall>n b. clientBlockByNumber en1 n = Inr b \<longrightarrow> NumberU64 b = n) \<and>
       (\<forall>n b. clientBlockByNumber en2 n = Inr b \<longrightarrow> NumberU64 b = n) \<longrightarrow>
         (\<exists>d. CallSaveTxs d \<in> set ev1 \<and> t1 \<in> fst ` set d \<and> fst (SaveTxs rdw (faults en1) d db0) = None) \<and>
         (\<exists>d. CallSaveTxs d \<in> set ev2 \<and> t1 \<in> fst ` set d \<and> fst (SaveTxs rdw (faults en2) d db1) = None) \<and>
         (\<exists>b. clientBlockByNumber en1 t1 = Inr b \<and>
              hashes db1 (txDataKey rdw) (FormatUint (unat t1)) = Some (txDatas b)) \<and>
         (\<exists>b. clientBlockByNumber en2 t1 = Inr b \<and>
              hashes db2 (txDataKey rdw) (FormatUint (unat t1)) = Some (txDatas b)))"
    if i1: "txsIteration rdw en1 toBlock batchSize rolling True l0 db0 = (ev1, db1, Next t1)"
      and i2: "txsIteration rdw en2 toBlock batchSize rolling True t1 db1 = (ev2, db2, Next t2)"
      and le: "l0 \<le> t1" "t1 \<le> t2"
  proof -
    obtain c1 where c1: "clientBlockNumber en1 = Inr c1" "t1 = thisToBlock (thisFromBlock True l0) batchSize c1 rolling toBlock"
      using txsIteration_Next [OF i1] by blast
    obtain c2 where c2: "clientBlockNumber en2 = Inr c2" "t2 = thisToBlock (thisFromBlock True t1) batchSize c2 rolling toBlock"
      using txsIteration_Next [OF i2] by blast
    have w1: "windowsOf ev1 = [(l0, t1)]"
      using windowsOf_txsIteration [of rdw en1 toBlock batchSize rolling True l0 db0] i1 c1
      by (simp add: thisFromBlock_def)
    have w2: "windowsOf ev2 = [(t1, t2)]"
      using windowsOf_txsIteration [of rdw en2 toBlock batchSize rolling True t1 db1] i2 c2
      by (simp add: thisFromBlock_def)
    have m1: "t1 \<in> set (blockNumbers (thisFromBlock True l0) t1)"
      using le(1) by (simp add: set_blockNumbers thisFromBlock_def)
    have m2: "t1 \<in> set (blockNumbers (thisFromBlock True t1) t2)"
      using le(2) by (simp add: set_blockNumbers thisFromBlock_def)
    have f1: "t1 \<in> set (fetchedBlocks ev1)"
      using txsIteration_Next_events [OF i1] m1 by simp
    have f2: "t1 \<in> set (fetchedBlocks ev2)"
      using txsIteration_Next_events [OF i2] m2 by simp
    have s1: "\<exists>d. CallSaveTxs d \<in> set ev1 \<and> t1 \<in> fst ` set d \<and> fst (SaveTxs rdw (faults en1) d db0) = None"
      if "\<forall>n b. clientBlockByNumber en1 n = Inr b \<longrightarrow> NumberU64 b = n"
      using txsIteration_Next_saves [OF i1 that m1] .
    have s2: "\<exists>d. CallSaveTxs d \<in> set ev2 \<and> t1 \<in> fst ` set d \<and> fst (SaveTxs rdw (faults en2) d db1) = None"
      if "\<forall>n b. clientBlockByNumber en2 n = Inr b \<longrightarrow> NumberU64 b = n"
      using txsIteration_Next_saves [OF i2 that m2] .
    have p1: "\<exists>b. clientBlockByNumber en1 t1 = Inr b \<and>
        hashes db1 (txDataKey rdw) (FormatUint (unat t1)) = Some (txDatas b)"
      if "\<forall>n b. clientBlockByNumber en1 n = Inr b \<longrightarrow> NumberU64 b = n"
      using txsIteration_window_saved [OF i1 txsIteration_Next_checkpoint [OF i1] that m1] .
    have p2: "\<exists>b. clientBlockByNumber en2 t1 = Inr b \<and>
        hashes db2 (txDataKey rdw) (FormatUint (unat t1)) = Some (txDatas b)"
      if "\<forall>n b. clientBlockByNumber en2 n = Inr b \<longrightarrow> NumberU64 b = n"
      using txsIteration_window_saved [OF i2 txsIteration_Next_checkpoint [OF i2] that m2] .
    show ?thesis using w1 w2 f1 f2 s1 s2 p1 p2 by blast
  qed
  have lgs: "logQueries lev1 = [(l0, t1)] \<and> logQueries lev2 = [(t1, t2)]"
    if i1: "logsIteration rdw en1 addresses toBlock batchSize rolling True l0 db0 = (lev1, ldb1, Next t1)"
      and i2: "logsIteration rdw en2 addresses toBlock batchSize rolling True t1 ldb1 = (lev2, ldb2, Next t2)"
  proof -
    obtain c1 where c1: "clientBlockNumber en1 = Inr c1" "t1 = thisToBlock (thisFromBlock True l0) batchSize c1 rolling toBlock"
      using logsIteration_Next [OF i1] by blast
    obtain c2 where c2: "clientBlockNumber en2 = Inr c2" "t2 = thisToBlock (thisFromBlock True t1) batchSize c2 rolling toBlock"
      using logsIteration_Next [OF i2] by blast
    show ?thesis
      using logQueries_logsIteration [of rdw en1 addresses toBlock batchSize rolling True l0 db0]
        logQueries_logsIteration [of rdw en2 addresses toBlock batchSize rolling True t1 ldb1] i1 i2 c1 c2
      by (simp add: thisFromBlock_def)
  qed
  show ?thesis using run txs lgs by blast
qed

theorem first_run_window_overlap_witness:
  "GetErr (faults (quietNode 150)) (lastRecordedBlockKey txsWrapper) = None \<and>
   strings emptyRedis (lastRecordedBlockKey txsWrapper) = None \<and>
   windowsOf (fst (getAndSaveTxs (Suc (Suc 0)) txsWrapper (\<lambda>i. quietNode 150) emptyRedis 100 104 2 False)) =
     [(100, 102), (102, 104)] \<and>
   chained 100 (windowsOf (fst (getAndSaveTxs (Suc (Suc 0)) txsWrapper (\<lambda>i. quietNode 150) emptyRedis 100 104 2 False))) \<and>
   snd (snd (txsIteration txsWrapper (quietNode 150) 104 2 False True 100 emptyRedis)) = Next 102 \<and>
   snd (snd (txsIteration txsWrapper (quietNode 150) 104 2 False True 102
     (fst (snd (txsIteration txsWrapper (quietNode 150) 104 2 False True 100 emptyRedis))))) = Next 104 \<and>
   (100 :: u64) \<le> 102 \<and> (102 :: u64) \<le> 104 \<and> unat (104 :: u64) < 2 ^ 63 \<and>
   unat (100 :: u64) < 2 ^ 63 \<and> unat (102 :: u64) < 2 ^ 63 \<and>
   102 \<in> set (fetchedBlocks (fst (txsIteration txsWrapper (quietNode 150) 104 2 False True 100 emptyRedis))) \<and>
   102 \<in> set (fetchedBlocks (fst (txsIteration txsWrapper (quietNode 150) 104 2 False True 102
     (fst (snd (txsIteration txsWrapper (quietNode 150) 104 2 False True 100 emptyRedis)))))) \<and>
   (\<exists>d. CallSaveTxs d \<in> set (fst (txsIteration txsWrapper (quietNode 150) 104 2 False True 100 emptyRedis)) \<and>
        102 \<in> fst ` set d \<and> fst (SaveTxs txsWrapper (faults (quietNode 150)) d emptyRedis) = None) \<and>
   (\<exists>d. CallSaveTxs d \<in> set (fst (txsIteration txsWrapper (quietNode 150) 104 2 False True 102
          (fst (snd (txsIteration txsWrapper (quietNode 150) 104 2 False True 100 emptyRedis))))) \<and>
        102 \<in> fst ` set d \<and>
        fst (SaveTxs txsWrapper (faults (quietNode 150)) d
          (fst (snd (txsIteration txsWrapper (quietNode 150) 104 2 False True 100 emptyRedis)))) = None) \<and>
   hashes (fst (snd (txsIteration txsWrapper (quietNode 150) 104 2 False True 100 emptyRedis)))
     (txDataKey txsWrapper) ''102'' = Some [] \<and>
   hashes (fst (snd (txsIteration txsWrapper (quietNode 150) 104 2 False True 102
     (fst (snd (txsIteration txsWrapper (quietNode 150) 104 2 False True 100 emptyRedis))))))
     (txDataKey txsWrapper) ''102'' = Some [] \<and>
   chained 100 (windowsOf (fst (getAndSaveLogsTxs (Suc (Suc 0)) txsWrapper (\<lambda>i. quietNode 150) emptyRedis []
     100 104 2 False))) \<and>
   snd (snd (logsIteration txsWrapper (quietNode 150) [] 104 2 False True 100 emptyRedis)) = Next 102 \<and>
   snd (snd (logsIteration txsWrapper (quietNode 150) [] 104 2 False True 102
     (fst (snd (logsIteration txsWrapper (quietNode 150) [] 104 2 False True 100 emptyRedis))))) = Next 104 \<and>
   logQueries (fst (logsIteration txsWrapper (quietNode 150) [] 104 2 False True 100 emptyRedis)) = [(100, 102)] \<and>
   logQueries (fst (logsIteration txsWrapper (quietNode 150) [] 104 2 False True 102
     (fst (snd (logsIteration txsWrapper (quietNode 150) [] 104 2 False True 100 emptyRedis))))) = [(102, 104)]"
proof -
  let ?X1 = "txsIteration txsWrapper (quietNode 150) 104 2 False True 100 emptyRedis"
  let ?X2 = "txsIteration txsWrapper (quietNode 150) 104 2 False True 102 (fst (snd ?X1))"
  let ?Y1 = "logsIteration txsWrapper (quietNode 150) [] 104 2 False True 100 emptyRedis"
  let ?Y2 = "logsIteration txsWrapper (quietNode 150) [] 104 2 False True 102 (fst (snd ?Y1))"
  have g: "GetErr (faults (quietNode 150)) (lastRecordedBlockKey txsWrapper) = None"
    by (simp add: quietNode_def noFaults_def)
  have s: "strings emptyRedis (lastRecordedBlockKey txsWrapper) = None"
    by (simp add: emptyRedis_def)
  have w: "windowsOf (fst (getAndSaveTxs (Suc (Suc 0)) txsWrapper (\<lambda>i. quietNode 150) emptyRedis 100 104 2 False)) =
     [(100, 102), (102, 104)]"
    by (simp add: run_defs txsLoop_done observers split: prod.splits)
  have o1: "snd (snd ?X1) = Next 102" by (simp add: run_defs)
  have o2: "snd (snd ?X2) = Next 104" by (simp add: run_defs)
  have i1: "?X1 = (fst ?X1, fst (snd ?X1), Next 102)"
    using o1 by (simp add: prod_eq_iff)
  have i2: "?X2 = (fst ?X2, fst (snd ?X2), Next 104)"
    using o2 by (simp add: prod_eq_iff)
  have le: "(100 :: u64) \<le> 102" "(102 :: u64) \<le> 104" "unat (104 :: u64) < 2 ^ 63"
    "unat (100 :: u64) < 2 ^ 63" "unat (102 :: u64) < 2 ^ 63" by simp_all
  have wb: "\<forall>n b. clientBlockByNumber (quietNode 150) n = Inr b \<longrightarrow> NumberU64 b = n"
    by (auto simp: quietNode_def)
  note inst = first_run_window_overlap [where world = "\<lambda>i. quietNode 150" and rdw = txsWrapper and db = emptyRedis
      and fuel = "Suc (Suc 0)" and fromBlock = 100 and toBlock = 104 and batchSize = 2 and rolling = False
      and ?en1.0 = "quietNode 150" and ?en2.0 = "quietNode 150" and ?l0.0 = 100 and ?db0.0 = emptyRedis
      and ?ev1.0 = "fst ?X1" and ?db1.0 = "fst (snd ?X1)" and ?t1.0 = 102
      and ?ev2.0 = "fst ?X2" and ?db2.0 = "fst (snd ?X2)" and ?t2.0 = 104 and addresses = "[]"
      and ?lev1.0 = "fst ?Y1" and ?ldb1.0 = "fst (snd ?Y1)" and ?lev2.0 = "fst ?Y2" and ?ldb2.0 = "fst (snd ?Y2)"]
  have c: "chained 100 (windowsOf (fst (getAndSaveTxs (Suc (Suc 0)) txsWrapper (\<lambda>i. quietNode 150) emptyRedis 100 104 2 False)))"
    using inst g s by blast
  have rest: "102 \<in> set (fetchedBlocks (fst ?X1)) \<and> 102 \<in> set (fetchedBlocks (fst ?X2)) \<and>
     (\<exists>d. CallSaveTxs d \<in> set (fst ?X1) \<and> 102 \<in> fst ` set d \<and>
          fst (SaveTxs txsWrapper (faults (quietNode 150)) d emptyRedis) = None) \<and>
     (\<exists>d. CallSaveTxs d \<in> set (fst ?X2) \<and> 102 \<in> fst ` set d \<and>
          fst (SaveTxs txsWrapper (faults (quietNode 150)) d (fst (snd ?X1))) = None)"
    using inst i1 i2 le wb by blast
  have kz: "FormatUint (unat (102 :: u64)) = ''102''"
    by (simp add: FormatUint.simps digitChar_def)
  have bz: "clientBlockByNumber (quietNode 150) 102 = Inr b \<Longrightarrow> txDatas b = []" for b
    by (auto simp: quietNode_def txDatas_def)
  have "(\<exists>b. clientBlockByNumber (quietNode 150) 102 = Inr b \<and>
          hashes (fst (snd ?X1)) (txDataKey txsWrapper) (FormatUint (unat (102 :: u64))) = Some (txDatas b)) \<and>
        (\<exists>b. clientBlockByNumber (quietNode 150) 102 = Inr b \<and>
          hashes (fst (snd ?X2)) (txDataKey txsWrapper) (FormatUint (unat (102 :: u64))) = Some (txDatas b))"
    using inst i1 i2 le wb by blast
  then have st: "hashes (fst (snd ?X1)) (txDataKey txsWrapper) ''102'' = Some [] \<and>
      hashes (fst (snd ?X2)) (txDataKey txsWrapper) ''102'' = Some []"
    using bz kz by auto
  have p1: "snd (snd ?Y1) = Next 102" by (simp add: run_defs)
  have p2: "snd (snd ?Y2) = Next 104" by (simp add: run_defs)
  have j1: "?Y1 = (fst ?Y1, fst (snd ?Y1), Next 102)"
    using p1 by (simp add: prod_eq_iff)
  have j2: "?Y2 = (fst ?Y2, fst (snd ?Y2), Next 104)"
    using p2 by (simp add: prod_eq_iff)
  have lc: "chained 100 (windowsOf (fst (getAndSaveLogsTxs (Suc (Suc 0)) txsWrapper (\<lambda>i. quietNode 150) emptyRedis []
      100 104 2 False)))"
    using inst g s by blast
  have lq: "logQueries (fst ?Y1) = [(100, 102)] \<and> logQueries (fst ?Y2) = [(102, 104)]"
    using inst j1 j2 le by blast
  show ?thesis using g s w c o1 o2 le rest st lc p1 p2 lq by blast
qed

text \<open>
  The claim as written fails when the second window is empty. First run from block \<open>100\<close>,
  the node at height \<open>102\<close> and then at \<open>101\<close>: the windows are \<open>(100, 102)\<close> and \<open>(102, 101)\<close>,
  the second one starts at the upper bound of the first but holds no block, so the boundary
  block \<open>102\<close> is requested once, and the checkpoint goes from \<open>102\<close> back to \<open>101\<close>.
\<close>

theorem first_run_boundary_fetched_once:
  "strings emptyRedis (lastRecordedBlockKey txsWrapper) = None \<and>
   windowsOf (fst (getAndSaveTxs (Suc (Suc 0)) txsWrapper (\<lambda>i. quietNode (if i = 0 then 102 else 101)) emptyRedis
     100 200 25 False)) = [(100, 102), (102, 101)] \<and>
   fetchedBlocks (fst (getAndSaveTxs (Suc (Suc 0)) txsWrapper (\<lambda>i. quietNode (if i = 0 then 102 else 101)) emptyRedis
     100 200 25 False)) = [100, 101, 102] \<and>
   count_list (fetchedBlocks (fst (getAndSaveTxs (Suc (Suc 0)) txsWrapper (\<lambda>i. quietNode (if i = 0 then 102 else 101))
     emptyRedis 100 200 25 False))) 102 = 1 \<and>
   checkpointWrites (fst (getAndSaveTxs (Suc (Suc 0)) txsWrapper (\<lambda>i. quietNode (if i = 0 then 102 else 101)) emptyRedis
     100 200 25 False)) = [102, 101]"
  by (simp add: run_defs observers split: prod.splits)

section \<open>Records before checkpoint\<close>

text \<open>
  C3. In every iteration of both modes \<open>SetLastRecordedBlock\<close> is called only after the
  record write (\<open>SaveTxs\<close>, \<open>SaveLogTxs\<close>) of the same iteration has returned without error:
  it is the last call of the iteration, the record write is the call right before it, and no
  checkpoint is written earlier in the iteration. When the record write fails the iteration
  returns the error, wrapped, makes no call to \<open>SetLastRecordedBlock\<close>, leaves the stored
  checkpoint as it was and does not move on to another window. Whenever the stored checkpoint
  changes, it changes to the value of the one checkpoint write of the iteration. And when the
  checkpoint call is made the records are in the store already: in transaction mode those of
  every block of the window (for a node that numbers the blocks it returns as asked), in log
  mode those of every log event the query returned.
\<close>

theorem persist_before_checkpoint:
  "(txsIteration rdw en toBlock batchSize rolling firstRun l db = (ev, db', out) \<longrightarrow>
      (\<forall>t. CallSetLastRecordedBlock t \<in> set ev \<longrightarrow>
          (\<exists>pre d. ev = pre @ [CallSaveTxs d, CallSetLastRecordedBlock t] \<and> checkpointWrites pre = [] \<and>
                  fst (SaveTxs rdw (faults en) d db) = None)) \<and>
      (\<forall>d e. CallSaveTxs d \<in> set ev \<and> fst (SaveTxs rdw (faults en) d db) = Some e \<longrightarrow>
          out = Return (Wrap e ''failed to save tx data to redis'') \<and> checkpointWrites ev = [] \<and>
          strings db' = strings db) \<and>
      (strings db' = strings db \<or>
       (\<exists>t. checkpointWrites ev = [t] \<and> out = Next t \<and>
            strings db' = (strings db)(lastRecordedBlockKey rdw \<mapsto> FormatUint (unat t)))) \<and>
      (\<forall>t n. CallSetLastRecordedBlock t \<in> set ev \<and>
             (\<forall>k b. clientBlockByNumber en k = Inr b \<longrightarrow> NumberU64 b = k) \<and>
             n \<in> set (blockNumbers (thisFromBlock firstRun l) t) \<longrightarrow>
          (\<exists>b. clientBlockByNumber en n = Inr b \<and>
               hashes db' (txDataKey rdw) (FormatUint (unat n)) = Some (txDatas b)))) \<and>
   (logsIteration rdw en addresses toBlock batchSize rolling firstRun l db = (lev, ldb', lout) \<longrightarrow>
      (\<forall>t. CallSetLastRecordedBlock t \<in> set lev \<longrightarrow>
          (\<exists>pre d. lev = pre @ [CallSaveLogTxs d, CallSetLastRecordedBlock t] \<and> checkpointWrites pre = [] \<and>
                  fst (SaveLogTxs rdw (faults en) d db) = None)) \<and>
      (\<forall>d e. CallSaveLogTxs d \<in> set lev \<and> fst (SaveLogTxs rdw (faults en) d db) = Some e \<longrightarrow>
          (\<exists>msg. lout = Return (Wrap e msg)) \<and> checkpointWrites lev = [] \<and> strings ldb' = strings db) \<and>
      (strings ldb' = strings db \<or>
       (\<exists>t. checkpointWrites lev = [t] \<and> lout = Next t \<and>
            strings ldb' = (strings db)(lastRecordedBlockKey rdw \<mapsto> FormatUint (unat t)))) \<and>
      (\<forall>t logs log. CallSetLastRecordedBlock t \<in> set lev \<and>
             clientFilterLogs en (thisFromBlock firstRun l) t addresses = Inr logs \<and> log \<in> set logs \<longrightarrow>
          hashes ldb' (logDataKey rdw (ToLower (LogAddress log))) (FormatUint (unat (LogBlockNumber log))) =
            Some (map logData (filter (\<lambda>x. ToLower (LogAddress x) = ToLower (LogAddress log) \<and>
                                         LogBlockNumber x = LogBlockNumber log) logs))))"
proof -
  have tx: "(\<forall>t. CallSetLastRecordedBlock t \<in> set ev \<longrightarrow>
          (\<exists>pre d. ev = pre @ [CallSaveTxs d, CallSetLastRecordedBlock t] \<and> checkpointWrites pre = [] \<and>
                  fst (SaveTxs rdw (faults en) d db) = None)) \<and>
      (\<forall>d e. CallSaveTxs d \<in> set ev \<and> fst (SaveTxs rdw (faults en) d db) = Some e \<longrightarrow>
          out = Return (Wrap e ''failed to save tx data to redis'') \<and> checkpointWrites ev = [] \<and>
          strings db' = strings db) \<and>
      (strings db' = strings db \<or>
       (\<exists>t. checkpointWrites ev = [t] \<and> out = Next t \<and>
            strings db' = (strings db)(lastRecordedBlockKey rdw \<mapsto> FormatUint (unat t)))) \<and>
      (\<forall>t n. CallSetLastRecordedBlock t \<in> set ev \<and>
             (\<forall>k b. clientBlockByNumber en k = Inr b \<longrightarrow> NumberU64 b = k) \<and>
             n \<in> set (blockNumbers (thisFromBlock firstRun l) t) \<longrightarrow>
          (\<exists>b. clientBlockByNumber en n = Inr b \<and>
               hashes db' (txDataKey rdw) (FormatUint (unat n)) = Some (txDatas b)))"
    if it: "txsIteration rdw en toBlock batchSize rolling firstRun l db = (ev, db', out)"
    using txsIteration_checkpoint_after_save [OF it] txsIteration_save_failed [OF it] txsIteration_strings [OF it]
      txsIteration_window_saved [OF it]
    by blast
  have lg: "(\<forall>t. CallSetLastRecordedBlock t \<in> set lev \<longrightarrow>
          (\<exists>pre d. lev = pre @ [CallSaveLogTxs d, CallSetLastRecordedBlock t] \<and> checkpointWrites pre = [] \<and>
                  fst (SaveLogTxs rdw (faults en) d db) = None)) \<and>
      (\<forall>d e. CallSaveLogTxs d \<in> set lev \<and> fst (SaveLogTxs rdw (faults en) d db) = Some e \<longrightarrow>
          (\<exists>msg. lout = Return (Wrap e msg)) \<and> checkpointWrites lev = [] \<and> strings ldb' = strings db) \<and>
      (strings ldb' = strings db \<or>
       (\<exists>t. checkpointWrites lev = [t] \<and> lout = Next t \<and>
            strings ldb' = (strings db)(lastRecordedBlockKey rdw \<mapsto> FormatUint (unat t)))) \<and>
      (\<forall>t logs log. CallSetLastRecordedBlock t \<in> set lev \<and>
             clientFilterLogs en (thisFromBlock firstRun l) t addresses = Inr logs \<and> log \<in> set logs \<longrightarrow>
          hashes ldb' (logDataKey rdw (ToLower (LogAddress log))) (FormatUint (unat (LogBlockNumber log))) =
            Some (map logData (filter (\<lambda>x. ToLower (LogAddress x) = ToLower (LogAddress log) \<and>
                                         LogBlockNumber x = LogBlockNumber log) logs)))"
    if it: "logsIteration rdw en addresses toBlock batchSize rolling firstRun l db = (lev, ldb', lout)"
    using logsIteration_checkpoint_after_save [OF it] logsIteration_save_failed [OF it] logsIteration_strings [OF it]
      logsIteration_logs_saved [OF it]
    by blast
  show ?thesis using tx lg by blast
qed

theorem persist_before_checkpoint_witness:
  "CallSaveTxs [(100, []), (101, [])]
     \<in> set (fst (txsIteration txsWrapper ((quietNode 110)\<lparr>faults := readOnly\<rparr>) 105 1 False False 99 emptyRedis)) \<and>
   fst (SaveTxs txsWrapper readOnly [(100, []), (101, [])] emptyRedis) =
     Some (Wrap (New ''READONLY'') ''failed to save key ethtxcrawler:txs to redis'') \<and>
   snd (snd (txsIteration txsWrapper ((quietNode 110)\<lparr>faults := readOnly\<rparr>) 105 1 False False 99 emptyRedis)) =
     Return (Wrap (Wrap (New ''READONLY'') ''failed to save key ethtxcrawler:txs to redis'')
       ''failed to save tx data to redis'') \<and>
   checkpointWrites (fst (txsIteration txsWrapper ((quietNode 110)\<lparr>faults := readOnly\<rparr>) 105 1 False False 99 emptyRedis)) = [] \<and>
   strings (fst (snd (txsIteration txsWrapper ((quietNode 110)\<lparr>faults := readOnly\<rparr>) 105 1 False False 99 emptyRedis))) =
     strings emptyRedis \<and>
   CallSetLastRecordedBlock 8
     \<in> set (fst (logsIteration logsWrapper (chattyNode 9) [] 20 2 False False 5 emptyRedis)) \<and>
   (\<exists>pre d. fst (logsIteration logsWrapper (chattyNode 9) [] 20 2 False False 5 emptyRedis) =
        pre @ [CallSaveLogTxs d, CallSetLastRecordedBlock 8] \<and> checkpointWrites pre = [] \<and>
        fst (SaveLogTxs logsWrapper (faults (chattyNode 9)) d emptyRedis) = None) \<and>
   hashes (fst (snd (logsIteration logsWrapper (chattyNode 9) [] 20 2 False False 5 emptyRedis)))
     (logDataKey logsWrapper ''0xaa'') ''7'' = Some [\<lparr>Hash = ''0x1f'', Data = ''ab''\<rparr>, \<lparr>Hash = ''0x3d'', Data = []\<rparr>] \<and>
   CallSetLastRecordedBlock 101
     \<in> set (fst (txsIteration txsWrapper (quietNode 110) 105 1 False False 99 emptyRedis)) \<and>
   hashes (fst (snd (txsIteration txsWrapper (quietNode 110) 105 1 False False 99 emptyRedis)))
     (txDataKey txsWrapper) ''101'' = Some []"
proof -
  let ?en = "(quietNode 110)\<lparr>faults := readOnly\<rparr>"
  let ?X = "txsIteration txsWrapper ?en 105 1 False False 99 emptyRedis"
  let ?Y = "logsIteration logsWrapper (chattyNode 9) [] 20 2 False False 5 emptyRedis"
  let ?Z = "txsIteration txsWrapper (quietNode 110) 105 1 False False 99 emptyRedis"
  let ?log = "\<lparr>LogAddress = ''0xAA'', LogTxHash = ''0x1F'', LogBlockNumber = 7, LogData = [171]\<rparr>"
  have m: "CallSaveTxs [(100, []), (101, [])] \<in> set (fst ?X)"
    by (simp add: run_defs readOnly_def)
  have f: "fst (SaveTxs txsWrapper (faults ?en) [(100, []), (101, [])] emptyRedis) =
     Some (Wrap (New ''READONLY'') ''failed to save key ethtxcrawler:txs to redis'')"
    by (simp add: run_defs readOnly_def)
  have fe: "faults ?en = readOnly" by simp
  have c: "CallSetLastRecordedBlock 8 \<in> set (fst ?Y)"
    by (simp add: run_defs chattyNode_def sampleLogs_def)
  have cz: "CallSetLastRecordedBlock 101 \<in> set (fst ?Z)"
    by (simp add: run_defs)
  have x: "?X = (fst ?X, fst (snd ?X), snd (snd ?X))" by simp
  have y: "?Y = (fst ?Y, fst (snd ?Y), snd (snd ?Y))" by simp
  have z: "?Z = (fst ?Z, fst (snd ?Z), snd (snd ?Z))" by simp
  have ql: "clientFilterLogs (chattyNode 9) (thisFromBlock False 5) 8 [] = Inr sampleLogs" "?log \<in> set sampleLogs"
    by (simp_all add: chattyNode_def quietNode_def sampleLogs_def)
  have wb: "\<forall>k b. clientBlockByNumber (quietNode 110) k = Inr b \<longrightarrow> NumberU64 b = k"
    by (auto simp: quietNode_def)
  have nb: "101 \<in> set (blockNumbers (thisFromBlock False 99) 101)"
    by (simp add: set_blockNumbers thisFromBlock_def)
  have kz: "FormatUint (unat (101 :: u64)) = ''101''" "FormatUint (unat (7 :: u64)) = ''7''"
    by (simp_all add: FormatUint.simps digitChar_def)
  have bz: "clientBlockByNumber (quietNode 110) 101 = Inr b \<Longrightarrow> txDatas b = []" for b
    by (auto simp: quietNode_def txDatas_def)
  have recs: "ToLower (LogAddress ?log) = ''0xaa''" "LogBlockNumber ?log = 7"
    "map logData (filter (\<lambda>x. ToLower (LogAddress x) = ''0xaa'' \<and> LogBlockNumber x = 7) sampleLogs) =
       [\<lparr>Hash = ''0x1f'', Data = ''ab''\<rparr>, \<lparr>Hash = ''0x3d'', Data = []\<rparr>]"
    by (simp_all add: sampleLogs_def logData_def ToLower_def toLowerChar_def EncodeToString_def hexChar_def)
  note inst = persist_before_checkpoint [where rdw = txsWrapper and en = ?en and toBlock = 105 and batchSize = 1
      and rolling = False and firstRun = False and l = 99 and db = emptyRedis
      and ev = "fst ?X" and db' = "fst (snd ?X)" and out = "snd (snd ?X)"]
  note insl = persist_before_checkpoint [where rdw = logsWrapper and en = "chattyNode 9" and toBlock = 20 and batchSize = 2
      and rolling = False and firstRun = False and l = 5 and db = emptyRedis and addresses = "[]"
      and lev = "fst ?Y" and ldb' = "fst (snd ?Y)" and lout = "snd (snd ?Y)"]
  note insz = persist_before_checkpoint [where rdw = txsWrapper and en = "quietNode 110" and toBlock = 105 and batchSize = 1
      and rolling = False and firstRun = False and l = 99 and db = emptyRedis
      and ev = "fst ?Z" and db' = "fst (snd ?Z)" and out = "snd (snd ?Z)"]
  have a: "snd (snd ?X) =
     Return (Wrap (Wrap (New ''READONLY'') ''failed to save key ethtxcrawler:txs to redis'')
       ''failed to save tx data to redis'') \<and>
     checkpointWrites (fst ?X) = [] \<and> strings (fst (snd ?X)) = strings emptyRedis"
    using inst x m f by blast
  have b: "\<exists>pre d. fst ?Y = pre @ [CallSaveLogTxs d, CallSetLastRecordedBlock 8] \<and> checkpointWrites pre = [] \<and>
        fst (SaveLogTxs logsWrapper (faults (chattyNode 9)) d emptyRedis) = None"
    using insl y c by blast
  have "hashes (fst (snd ?Y)) (logDataKey logsWrapper (ToLower (LogAddress ?log))) (FormatUint (unat (LogBlockNumber ?log))) =
      Some (map logData (filter (\<lambda>x. ToLower (LogAddress x) = ToLower (LogAddress ?log) \<and>
                                   LogBlockNumber x = LogBlockNumber ?log) sampleLogs))"
    using insl y c ql by blast
  then have hl: "hashes (fst (snd ?Y)) (logDataKey logsWrapper ''0xaa'') ''7'' =
      Some [\<lparr>Hash = ''0x1f'', Data = ''ab''\<rparr>, \<lparr>Hash = ''0x3d'', Data = []\<rparr>]"
    using recs kz by simp
  have "\<exists>b. clientBlockByNumber (quietNode 110) 101 = Inr b \<and>
      hashes (fst (snd ?Z)) (txDataKey txsWrapper) (FormatUint (unat (101 :: u64))) = Some (txDatas b)"
    using insz z cz wb nb by blast
  then have hz: "hashes (fst (snd ?Z)) (txDataKey txsWrapper) ''101'' = Some []"
    using bz kz by auto
  show ?thesis using m f fe a b c hl cz hz by simp
qed

section \<open>The window when the height has not moved\<close>

text \<open>
  C6, as the code has it. The loop has no test for an empty or inverted window. On a resumed
  run (\<open>firstRun\<close> not set), when the node reports a height equal to \<open>lastRecordedBlock\<close>
  (below the largest \<open>uint64\<close>), the window is \<open>(lastRecordedBlock + 1, t)\<close> with
  \<open>t \<le> lastRecordedBlock\<close>, and \<open>t = lastRecordedBlock\<close> when \<open>lastRecordedBlock + 1 + batchSize\<close>
  does not wrap and the loop condition holds. Transaction mode then requests no block. Log
  mode requests no block either but issues its one log query over that inverted range. In both
  modes a checkpoint written, and the position the loop continues from, is at most the
  unchanged height.
\<close>

theorem degenerate_window:
  "clientBlockNumber en = Inr l \<and> l \<noteq> - 1 \<longrightarrow>
     l < l + 1 \<and>
     (\<exists>t. t \<le> l \<and>
          windowsOf (fst (txsIteration rdw en toBlock batchSize rolling False l db)) = [(l + 1, t)] \<and>
          windowsOf (fst (logsIteration rdw en addresses toBlock batchSize rolling False l db)) = [(l + 1, t)] \<and>
          logQueries (fst (logsIteration rdw en addresses toBlock batchSize rolling False l db)) = [(l + 1, t)] \<and>
          (unat l + 1 + unat batchSize < 2 ^ 64 \<and> (rolling \<or> l < toBlock) \<longrightarrow> t = l)) \<and>
     fetchedBlocks (fst (txsIteration rdw en toBlock batchSize rolling False l db)) = [] \<and>
     fetchedBlocks (fst (logsIteration rdw en addresses toBlock batchSize rolling False l db)) = [] \<and>
     (\<forall>t \<in> set (checkpointWrites (fst (txsIteration rdw en toBlock batchSize rolling False l db))). t \<le> l) \<and>
     (\<forall>t \<in> set (checkpointWrites (fst (logsIteration rdw en addresses toBlock batchSize rolling False l db))). t \<le> l) \<and>
     (\<forall>t. snd (snd (txsIteration rdw en toBlock batchSize rolling False l db)) = Next t \<longrightarrow> t \<le> l) \<and>
     (\<forall>t. snd (snd (logsIteration rdw en addresses toBlock batchSize rolling False l db)) = Next t \<longrightarrow> t \<le> l)"
proof (intro impI, elim conjE)
  assume cur: "clientBlockNumber en = Inr l" and nm: "l \<noteq> - 1"
  let ?t = "thisToBlock (l + 1) batchSize l rolling toBlock"
  let ?X = "txsIteration rdw en toBlock batchSize rolling False l db"
  let ?Y = "logsIteration rdw en addresses toBlock batchSize rolling False l db"
  have lt: "l < l + 1" using nm by (rule less_plus_one)
  have tl: "?t \<le> l" by (rule thisToBlock_le_current)
  have w1: "windowsOf (fst ?X) = [(l + 1, ?t)]"
    using windowsOf_txsIteration [of rdw en toBlock batchSize rolling False l db] cur
    by (simp add: thisFromBlock_def)
  have w2: "windowsOf (fst ?Y) = [(l + 1, ?t)]"
    using windowsOf_logsIteration [of rdw en addresses toBlock batchSize rolling False l db] cur
    by (simp add: thisFromBlock_def)
  have q: "logQueries (fst ?Y) = [(l + 1, ?t)]"
    using logQueries_logsIteration [of rdw en addresses toBlock batchSize rolling False l db] cur
    by (simp add: thisFromBlock_def)
  have exact: "?t = l" if nw: "unat l + 1 + unat batchSize < 2 ^ 64" and lc: "rolling \<or> l < toBlock"
  proof -
    have "unat (l + 1 + batchSize) = unat l + 1 + unat batchSize"
      using no_wrap(1) [OF order_refl nw] .
    then have "l < l + 1 + batchSize" by (simp add: word_less_nat_alt)
    then show ?thesis using lc by (auto simp: thisToBlock_def chopToBlock_def chopToCurrent_def)
  qed
  have empty: "blockNumbers (l + 1) ?t = []"
    using lt tl by (auto simp: blockNumbers_def)
  have "\<not> l + 1 \<le> ?t" using lt tl by auto
  then have f1: "fetchedBlocks (fst ?X) = []"
    using fetchedBlocks_txsIteration [of rdw en toBlock batchSize rolling False l db] cur empty
    by (simp add: thisFromBlock_def)
  have f2: "fetchedBlocks (fst ?Y) = []"
    by (rule fetchedBlocks_logsIteration)
  have c1: "\<forall>t \<in> set (checkpointWrites (fst ?X)). t \<le> l"
    using checkpointWrites_txsIteration [of rdw en toBlock batchSize rolling False l db] cur tl
    by (auto simp: thisFromBlock_def)
  have c2: "\<forall>t \<in> set (checkpointWrites (fst ?Y)). t \<le> l"
    using checkpointWrites_logsIteration [of rdw en addresses toBlock batchSize rolling False l db] cur tl
    by (auto simp: thisFromBlock_def)
  have n1: "\<forall>t. snd (snd ?X) = Next t \<longrightarrow> t \<le> l"
  proof (intro allI impI)
    fix t assume "snd (snd ?X) = Next t"
    then have "?X = (fst ?X, fst (snd ?X), Next t)" by (simp add: prod_eq_iff)
    from txsIteration_Next [OF this] cur show "t \<le> l"
      using tl by (auto simp: thisFromBlock_def)
  qed
  have n2: "\<forall>t. snd (snd ?Y) = Next t \<longrightarrow> t \<le> l"
  proof (intro allI impI)
    fix t assume "snd (snd ?Y) = Next t"
    then have "?Y = (fst ?Y, fst (snd ?Y), Next t)" by (simp add: prod_eq_iff)
    from logsIteration_Next [OF this] cur show "t \<le> l"
      using tl by (auto simp: thisFromBlock_def)
  qed
  show "l < l + 1 \<and>
     (\<exists>t. t \<le> l \<and> windowsOf (fst ?X) = [(l + 1, t)] \<and> windowsOf (fst ?Y) = [(l + 1, t)] \<and>
          logQueries (fst ?Y) = [(l + 1, t)] \<and>
          (unat l + 1 + unat batchSize < 2 ^ 64 \<and> (rolling \<or> l < toBlock) \<longrightarrow> t = l)) \<and>
     fetchedBlocks (fst ?X) = [] \<and> fetchedBlocks (fst ?Y) = [] \<and>
     (\<forall>t \<in> set (checkpointWrites (fst ?X)). t \<le> l) \<and>
     (\<forall>t \<in> set (checkpointWrites (fst ?Y)). t \<le> l) \<and>
     (\<forall>t. snd (snd ?X) = Next t \<longrightarrow> t \<le> l) \<and>
     (\<forall>t. snd (snd ?Y) = Next t \<longrightarrow> t \<le> l)"
    using lt tl w1 w2 q exact f1 f2 c1 c2 n1 n2 by blast
qed

theorem degenerate_window_witness:
  "clientBlockNumber (quietNode 100) = Inr 100 \<and> (100 :: u64) \<noteq> - 1 \<and>
   unat (100 :: u64) + 1 + unat (25 :: u64) < 2 ^ 64 \<and>
   windowsOf (fst (txsIteration txsWrapper (quietNode 100) 200 25 True False 100 (checkpointOnly txsWrapper ''100''))) =
     [(101, 100)] \<and>
   logQueries (fst (logsIteration txsWrapper (quietNode 100) [] 200 25 True False 100 (checkpointOnly txsWrapper ''100''))) =
     [(101, 100)] \<and>
   fetchedBlocks (fst (txsIteration txsWrapper (quietNode 100) 200 25 True False 100 (checkpointOnly txsWrapper ''100''))) = [] \<and>
   list_all (\<lambda>t. t \<le> 100)
     (checkpointWrites (fst (txsIteration txsWrapper (quietNode 100) 200 25 True False 100 (checkpointOnly txsWrapper ''100''))))"
proof -
  have h: "clientBlockNumber (quietNode 100) = Inr 100" "(100 :: u64) \<noteq> - 1"
    "unat (100 :: u64) + 1 + unat (25 :: u64) < 2 ^ 64"
    by (simp_all add: quietNode_def)
  show ?thesis
    using h degenerate_window [of "quietNode 100" 100 txsWrapper 200 25 True "checkpointOnly txsWrapper ''100''" "[]"]
    by (auto simp: list_all_iff)
qed

text \<open>
  The claim as written fails in log mode: with checkpoint \<open>100\<close> and the node at height
  \<open>100\<close>, the iteration sends a log query for the range from \<open>101\<close> to \<open>100\<close>.
\<close>

theorem inverted_log_query:
  "clientBlockNumber (quietNode 100) = Inr 100 \<and>
   GetLastRecordedBlock logsWrapper noFaults (checkpointOnly logsWrapper ''100'') = Inr 100 \<and>
   fst (getAndSaveLogsTxs (Suc 0) logsWrapper (\<lambda>i. quietNode 100) (checkpointOnly logsWrapper ''100'') [] 5 200 25 True) =
     [CallBlockNumber, NewLoop 0 100 101 100, CallFilterLogs 101 100 [], CallSaveLogTxs [],
      CallSetLastRecordedBlock 100] \<and>
   (100 :: u64) < 101"
  by (simp add: run_defs)

section \<open>The log extractor\<close>

lemma logsIteration_saves_groups:
  assumes "clientBlockNumber en = Inr h"
    and "clientFilterLogs en (thisFromBlock firstRun l)
           (thisToBlock (thisFromBlock firstRun l) batchSize h rolling toBlock) addresses = Inr logs"
  shows "CallFilterLogs (thisFromBlock firstRun l) (thisToBlock (thisFromBlock firstRun l) batchSize h rolling toBlock) addresses
           \<in> set (fst (logsIteration rdw en addresses toBlock batchSize rolling firstRun l db)) \<and>
         CallSaveLogTxs (groupLogs logs) \<in> set (fst (logsIteration rdw en addresses toBlock batchSize rolling firstRun l db))"
  using assms by (simp add: logsIteration_def Let_def split: option.splits prod.splits)

text \<open>
  C8. An iteration of log mode whose height query succeeds sends exactly one log query, for
  the whole window and the configured addresses, and requests no block. Each log event adds
  exactly one record, \<open>{lower-case transaction hash, lower-case hex of the log data}\<close>, at the
  end of the list filed under the lower-case address and the block number of the event, and
  changes no other list. So the list of an address and a block is the list of the records of
  the events with that address and block, in the order the node returned them; the addresses
  filed are those of the events, each once; and this grouping is what the iteration saves.
\<close>

theorem log_extractor:
  "logData log = \<lparr>Hash = ToLower (LogTxHash log), Data = ToLower (EncodeToString (LogData log))\<rparr> \<and>
   bucket (addLog log acc) a n =
     bucket acc a n @ (if ToLower (LogAddress log) = a \<and> LogBlockNumber log = n then [logData log] else []) \<and>
   bucket (groupLogs logs) a n =
     map logData (filter (\<lambda>log. ToLower (LogAddress log) = a \<and> LogBlockNumber log = n) logs) \<and>
   fst ` set (groupLogs logs) = (\<lambda>log. ToLower (LogAddress log)) ` set logs \<and>
   distinct (map fst (groupLogs logs)) \<and>
   (clientBlockNumber en = Inr h \<longrightarrow>
      logQueries (fst (logsIteration rdw en addresses toBlock batchSize rolling firstRun l db)) =
        [(thisFromBlock firstRun l, thisToBlock (thisFromBlock firstRun l) batchSize h rolling toBlock)] \<and>
      fetchedBlocks (fst (logsIteration rdw en addresses toBlock batchSize rolling firstRun l db)) = [] \<and>
      (clientFilterLogs en (thisFromBlock firstRun l)
           (thisToBlock (thisFromBlock firstRun l) batchSize h rolling toBlock) addresses = Inr logs \<longrightarrow>
         CallFilterLogs (thisFromBlock firstRun l) (thisToBlock (thisFromBlock firstRun l) batchSize h rolling toBlock) addresses
           \<in> set (fst (logsIteration rdw en addresses toBlock batchSize rolling firstRun l db)) \<and>
         CallSaveLogTxs (groupLogs logs) \<in> set (fst (logsIteration rdw en addresses toBlock batchSize rolling firstRun l db))))"
proof -
  have r: "logData log = \<lparr>Hash = ToLower (LogTxHash log), Data = ToLower (EncodeToString (LogData log))\<rparr>"
    by (simp add: logData_def)
  have s: "bucket (addLog log acc) a n =
     bucket acc a n @ (if ToLower (LogAddress log) = a \<and> LogBlockNumber log = n then [logData log] else [])"
    by (rule bucket_addLog)
  have b: "bucket (groupLogs logs) a n =
     map logData (filter (\<lambda>log. ToLower (LogAddress log) = a \<and> LogBlockNumber log = n) logs)"
    using bucket_fold_addLog [of logs "[]" a n] by (simp add: groupLogs_def bucket_def)
  have k: "fst ` set (groupLogs logs) = (\<lambda>log. ToLower (LogAddress log)) ` set logs"
    using keys_fold_addLog [of logs "[]"] by (simp add: groupLogs_def)
  have d: "distinct (map fst (groupLogs logs))"
    using distinct_fold_addLog [of "[]" logs] by (simp add: groupLogs_def)
  have q: "logQueries (fst (logsIteration rdw en addresses toBlock batchSize rolling firstRun l db)) =
        [(thisFromBlock firstRun l, thisToBlock (thisFromBlock firstRun l) batchSize h rolling toBlock)]"
    if "clientBlockNumber en = Inr h"
    using logQueries_logsIteration [of rdw en addresses toBlock batchSize rolling firstRun l db] that by simp
  have f: "fetchedBlocks (fst (logsIteration rdw en addresses toBlock batchSize rolling firstRun l db)) = []"
    by (rule fetchedBlocks_logsIteration)
  show ?thesis
    using r s b k d q f logsIteration_saves_groups [of en h firstRun l batchSize rolling toBlock addresses logs rdw db]
    by blast
qed

theorem log_extractor_witness:
  "clientBlockNumber (chattyNode 9) = Inr 9 \<and>
   clientFilterLogs (chattyNode 9) 6 8 [''0xAA'', ''0xBb''] = Inr sampleLogs \<and>
   thisFromBlock False 5 = 6 \<and> thisToBlock 6 2 9 False 20 = 8 \<and>
   logQueries (fst (logsIteration logsWrapper (chattyNode 9) [''0xAA'', ''0xBb''] 20 2 False False 5 emptyRedis)) = [(6, 8)] \<and>
   CallSaveLogTxs (groupLogs sampleLogs)
     \<in> set (fst (logsIteration logsWrapper (chattyNode 9) [''0xAA'', ''0xBb''] 20 2 False False 5 emptyRedis)) \<and>
   bucket (groupLogs sampleLogs) ''0xaa'' 7 = [\<lparr>Hash = ''0x1f'', Data = ''ab''\<rparr>, \<lparr>Hash = ''0x3d'', Data = ''''\<rparr>] \<and>
   bucket (groupLogs sampleLogs) ''0xbb'' 7 = [\<lparr>Hash = ''0x2e'', Data = ''0102''\<rparr>] \<and>
   groupLogs sampleLogs =
     [(''0xaa'', [(7, [\<lparr>Hash = ''0x1f'', Data = ''ab''\<rparr>, \<lparr>Hash = ''0x3d'', Data = ''''\<rparr>])]),
      (''0xbb'', [(7, [\<lparr>Hash = ''0x2e'', Data = ''0102''\<rparr>])])]"
proof -
  have h: "clientBlockNumber (chattyNode 9) = Inr 9"
    "clientFilterLogs (chattyNode 9) 6 8 [''0xAA'', ''0xBb''] = Inr sampleLogs"
    by (simp_all add: chattyNode_def quietNode_def)
  have w: "thisFromBlock False 5 = 6" "thisToBlock 6 2 9 False 20 = 8"
    by (simp_all add: thisFromBlock_def thisToBlock_def chopToBlock_def chopToCurrent_def)
  have m: "map logData (filter (\<lambda>log. ToLower (LogAddress log) = ''0xaa'' \<and> LogBlockNumber log = 7) sampleLogs) =
      [\<lparr>Hash = ''0x1f'', Data = ''ab''\<rparr>, \<lparr>Hash = ''0x3d'', Data = ''''\<rparr>]"
    "map logData (filter (\<lambda>log. ToLower (LogAddress log) = ''0xbb'' \<and> LogBlockNumber log = 7) sampleLogs) =
      [\<lparr>Hash = ''0x2e'', Data = ''0102''\<rparr>]"
    by (simp_all add: sampleLogs_def logData_def ToLower_def toLowerChar_def EncodeToString_def hexChar_def)
  have g: "groupLogs sampleLogs =
     [(''0xaa'', [(7, [\<lparr>Hash = ''0x1f'', Data = ''ab''\<rparr>, \<lparr>Hash = ''0x3d'', Data = ''''\<rparr>])]),
      (''0xbb'', [(7, [\<lparr>Hash = ''0x2e'', Data = ''0102''\<rparr>])])]"
    by (simp add: groupLogs_def addLog_def sampleLogs_def logData_def ToLower_def toLowerChar_def EncodeToString_def
        hexChar_def Let_def)
  note inst = log_extractor [where en = "chattyNode 9" and h = 9 and rdw = logsWrapper
      and addresses = "[''0xAA'', ''0xBb'']" and toBlock = 20 and batchSize = 2 and rolling = False and firstRun = False
      and l = 5 and db = emptyRedis and logs = sampleLogs and n = 7]
  have a: "bucket (groupLogs sampleLogs) ''0xaa'' 7 = [\<lparr>Hash = ''0x1f'', Data = ''ab''\<rparr>, \<lparr>Hash = ''0x3d'', Data = ''''\<rparr>]"
    using inst [where a = "''0xaa''"] m(1) by simp
  have b: "bucket (groupLogs sampleLogs) ''0xbb'' 7 = [\<lparr>Hash = ''0x2e'', Data = ''0102''\<rparr>]"
    using inst [where a = "''0xbb''"] m(2) by simp
  have q: "logQueries (fst (logsIteration logsWrapper (chattyNode 9) [''0xAA'', ''0xBb''] 20 2 False False 5 emptyRedis)) = [(6, 8)] \<and>
     CallSaveLogTxs (groupLogs sampleLogs)
       \<in> set (fst (logsIteration logsWrapper (chattyNode 9) [''0xAA'', ''0xBb''] 20 2 False False 5 emptyRedis))"
    using inst [where a = "''0xaa''"] h w by simp
  show ?thesis using h w a b q g by blast
qed

section \<open>A fetch that fails\<close>

lemma joinFetches_None: "Inl e \<in> set rs \<Longrightarrow> joinFetches rs = None"
  by (induction rs rule: joinFetches.induct) (auto split: option.splits)

lemma txsIteration_fetch_failure:
  assumes "clientBlockNumber en = Inr h"
    and "n \<in> set (blockNumbers (thisFromBlock firstRun l) (thisToBlock (thisFromBlock firstRun l) batchSize h rolling toBlock))"
    and "clientBlockByNumber en n = Inl e"
  shows "(\<exists>a. snd (snd (txsIteration rdw en toBlock batchSize rolling firstRun l db)) = Stuck a) \<and>
         fst (snd (txsIteration rdw en toBlock batchSize rolling firstRun l db)) = db"
proof -
  have "Inl e \<in> set (map (clientBlockByNumber en)
      (blockNumbers (thisFromBlock firstRun l) (thisToBlock (thisFromBlock firstRun l) batchSize h rolling toBlock)))"
    using assms(2,3) by force
  then have "joinFetches (map (clientBlockByNumber en)
      (blockNumbers (thisFromBlock firstRun l) (thisToBlock (thisFromBlock firstRun l) batchSize h rolling toBlock))) = None"
    by (rule joinFetches_None)
  then show ?thesis
    using assms(1) by (simp add: txsIteration_def Let_def)
qed

text \<open>
  C2 on the code. Window \<open>[100, 102]\<close>, the fetch of block \<open>101\<close> fails. The task of block
  \<open>101\<close> sends its error on the unbuffered \<open>errChan\<close> before it reaches \<open>wg.Done()\<close>, and
  the loop that receives from \<open>errChan\<close> stands behind \<open>wg.Wait()\<close>: the iteration never
  returns, so no error reaches the caller. Nothing is saved and the checkpoint stays.
\<close>

theorem fetch_failure_never_returns:
  "clientBlockByNumber (flakyNode 110 101) 101 = Inl (New ''connection reset'') \<and>
   fst (txsIteration txsWrapper (flakyNode 110 101) 105 2 False False 99 (checkpointOnly txsWrapper ''99'')) =
     [CallBlockNumber, NewLoop 3 99 100 102, CallBlockByNumber 100, CallBlockByNumber 101, CallBlockByNumber 102] \<and>
   fst (snd (txsIteration txsWrapper (flakyNode 110 101) 105 2 False False 99 (checkpointOnly txsWrapper ''99''))) =
     checkpointOnly txsWrapper ''99'' \<and>
   snd (snd (txsIteration txsWrapper (flakyNode 110 101) 105 2 False False 99 (checkpointOnly txsWrapper ''99''))) =
     Stuck ErrChanDeadlock \<and>
   snd (snd (getAndSaveTxs (Suc fuel) txsWrapper (\<lambda>i. flakyNode 110 101) (checkpointOnly txsWrapper ''99'') 5 105 2 False)) =
     Some (NoReturn ErrChanDeadlock)"
  by (simp add: run_defs)

section \<open>A bounded first run\<close>

text \<open>
  C5 on the code. \<open>rolling = false\<close>, \<open>fromBlock = 100\<close>, \<open>toBlock = 150\<close>, \<open>batchSize = 25\<close>, no
  checkpoint, the node at height \<open>150\<close>. The run makes two windows and returns \<open>nil\<close> with the
  checkpoint \<open>150\<close>, but its windows are \<open>[100, 125]\<close> and \<open>[125, 150]\<close>: block \<open>125\<close> is
  requested twice, \<open>52\<close> requests in all.
\<close>

theorem bounded_first_run_windows:
  "windowsOf (fst (getAndSaveTxs (Suc (Suc fuel)) txsWrapper (\<lambda>i. quietNode 150) emptyRedis 100 150 25 False)) =
     [(100, 125), (125, 150)] \<and>
   snd (snd (getAndSaveTxs (Suc (Suc fuel)) txsWrapper (\<lambda>i. quietNode 150) emptyRedis 100 150 25 False)) =
     Some (Returned None) \<and>
   strings (fst (snd (getAndSaveTxs (Suc (Suc fuel)) txsWrapper (\<lambda>i. quietNode 150) emptyRedis 100 150 25 False)))
     (lastRecordedBlockKey txsWrapper) = Some ''150'' \<and>
   checkpointWrites (fst (getAndSaveTxs (Suc (Suc fuel)) txsWrapper (\<lambda>i. quietNode 150) emptyRedis 100 150 25 False)) =
     [125, 150] \<and>
   count_list (fetchedBlocks (fst (getAndSaveTxs (Suc (Suc fuel)) txsWrapper (\<lambda>i. quietNode 150) emptyRedis 100 150 25 False)))
     125 = 2 \<and>
   length (fetchedBlocks (fst (getAndSaveTxs (Suc (Suc fuel)) txsWrapper (\<lambda>i. quietNode 150) emptyRedis 100 150 25 False))) =
     52"
  by (simp add: run_defs txsLoop_done observers split: prod.splits)

end
